theory Spec2Isabelle
  imports Main "HOL-Library.Word"
begin

section \<open>JavaScript strings\<close>

text \<open>
  A JavaScript string is a sequence of UTF-16 code units. String literals of the source
  are ASCII; \<open>js\<close> turns an ASCII literal into its code units.
\<close>

type_synonym jschar = "16 word"
type_synonym jsstring = "jschar list"

definition js :: "string \<Rightarrow> jsstring" where
  "js s = map of_char s"

text \<open>
  \<^verbatim>\<open>s.split(sep)\<close> for a one-character separator: the pieces between the separators, in
  order; a string without the separator is the single piece (so the empty string gives
  one empty piece).
\<close>

fun split :: "jschar \<Rightarrow> jsstring \<Rightarrow> jsstring list" where
  "split sep [] = [[]]"
| "split sep (c # cs) =
     (if c = sep then [] # split sep cs
      else (case split sep cs of [] \<Rightarrow> [[c]] | l # ls \<Rightarrow> (c # l) # ls))"

text \<open>
  \<^verbatim>\<open>s.trim()\<close> removes the code units of ECMAScript's WhiteSpace and LineTerminator
  productions from both ends: TAB, LF, VT, FF, CR, SPACE, NBSP, the Unicode space
  separators, LS, PS and the byte order mark.
\<close>

definition is_js_whitespace :: "jschar \<Rightarrow> bool" where
  "is_js_whitespace c \<longleftrightarrow>
     c = 0x09 \<or> c = 0x0A \<or> c = 0x0B \<or> c = 0x0C \<or> c = 0x0D \<or> c = 0x20 \<or> c = 0xA0 \<or>
     c = 0x1680 \<or> (0x2000 \<le> c \<and> c \<le> 0x200A) \<or> c = 0x2028 \<or> c = 0x2029 \<or>
     c = 0x202F \<or> c = 0x205F \<or> c = 0x3000 \<or> c = 0xFEFF"

definition trim :: "jsstring \<Rightarrow> jsstring" where
  "trim s = rev (dropWhile is_js_whitespace (rev (dropWhile is_js_whitespace s)))"

definition startsWith :: "jsstring \<Rightarrow> jsstring \<Rightarrow> bool" where
  "startsWith s p \<longleftrightarrow> take (length p) s = p"

text \<open>Decimal rendering of integers, as a template literal renders a Number that is an integer.\<close>

definition digit_char :: "nat \<Rightarrow> jschar" where
  "digit_char d = of_nat (48 + d)"

fun nat_digits :: "nat \<Rightarrow> nat list" where
  "nat_digits n = (if n < 10 then [n] else nat_digits (n div 10) @ [n mod 10])"

declare nat_digits.simps [simp del]

definition nat_to_string :: "nat \<Rightarrow> jsstring" where
  "nat_to_string n = map digit_char (nat_digits n)"

definition int_to_string :: "int \<Rightarrow> jsstring" where
  "int_to_string i = (if i < 0 then js ''-'' @ nat_to_string (nat (- i)) else nat_to_string (nat i))"


section \<open>Numbers\<close>

text \<open>
  A Number is an IEEE 754 binary64 value. A finite one is written \<open>Finite s m e\<close> for
  \<open>(-1)\<^sup>s \<times> m \<times> 2\<^sup>e\<close>, with \<open>m < 2\<^sup>5\<^sup>3\<close> and \<open>-1074 \<le> e \<le> 971\<close>.
  \<open>round_binary64 s p q\<close> is the binary64 value nearest to the rational \<open>p / q\<close>, ties to
  the even mantissa, infinite from \<open>2\<^sup>1\<^sup>0\<^sup>2\<^sup>4\<close> on.
\<close>

datatype binary64 = Finite bool nat int | Inf bool | NaN

fun bitlen :: "nat \<Rightarrow> int" where
  "bitlen n = (if n = 0 then 0 else 1 + bitlen (n div 2))"

declare bitlen.simps [simp del]

definition scaled_le :: "nat \<Rightarrow> nat \<Rightarrow> int \<Rightarrow> bool" where
  "scaled_le q p L \<longleftrightarrow> (if 0 \<le> L then q * 2 ^ nat L \<le> p else q \<le> p * 2 ^ nat (- L))"

definition floor_log2 :: "nat \<Rightarrow> nat \<Rightarrow> int" where
  "floor_log2 p q =
     (if scaled_le q p (bitlen p - bitlen q) then bitlen p - bitlen q
      else bitlen p - bitlen q - 1)"

definition round_up :: "nat \<Rightarrow> nat \<Rightarrow> nat \<Rightarrow> nat" where
  "round_up m0 r den = (if den < 2 * r \<or> (2 * r = den \<and> odd m0) then m0 + 1 else m0)"

definition pack :: "bool \<Rightarrow> nat \<Rightarrow> int \<Rightarrow> binary64" where
  "pack s m e =
     (if m = 0 then Finite s 0 0
      else if m = 2 ^ 53 then (if 971 < e + 1 then Inf s else Finite s (2 ^ 52) (e + 1))
      else if 971 < e then Inf s
      else Finite s m e)"

definition round_ratio :: "bool \<Rightarrow> nat \<Rightarrow> nat \<Rightarrow> int \<Rightarrow> binary64" where
  "round_ratio s num den e = pack s (round_up (num div den) (num mod den) den) e"

definition round_at :: "bool \<Rightarrow> nat \<Rightarrow> nat \<Rightarrow> int \<Rightarrow> binary64" where
  "round_at s p q e =
     (if 0 \<le> e then round_ratio s p (q * 2 ^ nat e) e
      else round_ratio s (p * 2 ^ nat (- e)) q e)"

definition round_binary64 :: "bool \<Rightarrow> nat \<Rightarrow> nat \<Rightarrow> binary64" where
  "round_binary64 s p q =
     (if p = 0 then Finite s 0 0 else round_at s p q (max (floor_log2 p q - 52) (- 1074)))"

text \<open>
  In a JSON value a Number is kept as the shortest decimal that denotes it, which is how
  Number::toString prints it: a sign and the significant digits \<open>d\<^sub>1 \<dots> d\<^sub>k\<close> (no leading
  and no trailing zero) with an exponent \<open>n\<close>, standing for \<open>0.d\<^sub>1\<dots>d\<^sub>k \<times> 10\<^sup>n\<close>. These are
  the \<open>s\<close>, \<open>k\<close> and \<open>n\<close> of Number::toString. Zero is \<open>Number False [] 0\<close> (\<open>-0\<close> and \<open>0\<close>
  are one value, as for \<^verbatim>\<open>===\<close>), and a literal beyond the binary64 range is \<open>Infinity\<close>.
\<close>

datatype jsnumber = Number bool "nat list" int | Infinity bool

definition int_length :: "'a list \<Rightarrow> int" where
  "int_length xs = foldl (\<lambda>a x. a + 1) 0 xs"

definition digits_value :: "nat list \<Rightarrow> nat" where
  "digits_value ds = foldl (\<lambda>a d. 10 * a + d) 0 ds"

fun to_binary64 :: "jsnumber \<Rightarrow> binary64" where
  "to_binary64 (Number s ds n) =
     (if int_length ds \<le> n
      then round_binary64 s (digits_value ds * 10 ^ nat (n - int_length ds)) 1
      else round_binary64 s (digits_value ds) (10 ^ nat (int_length ds - n)))"
| "to_binary64 (Infinity s) = Inf s"

text \<open>
  The decimal with the digits \<open>ds\<close> read as an integer, times \<open>10\<^sup>e\<close>: leading zeros lower
  the exponent, trailing zeros are dropped.
\<close>

definition strip_zeros :: "bool \<Rightarrow> nat list \<Rightarrow> int \<Rightarrow> jsnumber" where
  "strip_zeros neg ds n =
     (if rev (dropWhile (\<lambda>d. d = 0) (rev ds)) = [] then Number False [] 0
      else Number neg (rev (dropWhile (\<lambda>d. d = 0) (rev ds))) n)"

definition normalise :: "bool \<Rightarrow> nat list \<Rightarrow> int \<Rightarrow> jsnumber" where
  "normalise neg ds e =
     strip_zeros neg (dropWhile (\<lambda>d. d = 0) ds) (int_length (dropWhile (\<lambda>d. d = 0) ds) + e)"

text \<open>
  The shortest decimal of a binary64 value \<open>x = p / q\<close>: for \<open>k = 1, 2, \<dots>\<close> digits, the two
  \<open>k\<close>-digit decimals next to \<open>x\<close> are tried, and one that rounds to \<open>x\<close> is taken (the
  nearer one, the even one at a tie). Seventeen digits always suffice for a binary64 value.
\<close>

fun scale_up :: "nat list \<Rightarrow> nat \<Rightarrow> nat \<Rightarrow> int \<Rightarrow> int" where
  "scale_up [] p q j = j"
| "scale_up (d # ds) p q j = (if q \<le> p then j else scale_up ds (p * 10) q (j + 1))"

definition decimal_exponent :: "nat \<Rightarrow> nat \<Rightarrow> int" where
  "decimal_exponent p q =
     (if q \<le> p then int_length (nat_digits (p div q))
      else 1 - scale_up (nat_digits q) p q 0)"

definition pick :: "binary64 \<Rightarrow> jsnumber \<Rightarrow> jsnumber \<Rightarrow> bool \<Rightarrow> jsnumber option" where
  "pick x c_lo c_hi prefer_lo =
     (if to_binary64 c_lo = x then
        (if to_binary64 c_hi = x then Some (if prefer_lo then c_lo else c_hi) else Some c_lo)
      else if to_binary64 c_hi = x then Some c_hi
      else None)"

definition candidate_ratio :: "binary64 \<Rightarrow> bool \<Rightarrow> nat \<Rightarrow> nat \<Rightarrow> int \<Rightarrow> jsnumber option" where
  "candidate_ratio x s P Q scale =
     pick x (normalise s (nat_digits (P div Q)) scale)
       (normalise s (nat_digits (P div Q + 1)) scale)
       (2 * (P mod Q) < Q \<or> (2 * (P mod Q) = Q \<and> even (P div Q)))"

definition candidate :: "binary64 \<Rightarrow> bool \<Rightarrow> nat \<Rightarrow> nat \<Rightarrow> int \<Rightarrow> jsnumber option" where
  "candidate x s p q scale =
     (if 0 \<le> scale then candidate_ratio x s p (q * 10 ^ nat scale) scale
      else candidate_ratio x s (p * 10 ^ nat (- scale)) q scale)"

fun search :: "binary64 \<Rightarrow> bool \<Rightarrow> nat \<Rightarrow> nat \<Rightarrow> int \<Rightarrow> int list \<Rightarrow> jsnumber option" where
  "search x s p q n [] = None"
| "search x s p q n (k # ks) =
     (case candidate x s p q (n - k) of
        Some d \<Rightarrow> Some d
      | None \<Rightarrow> search x s p q n ks)"

definition search_ratio :: "binary64 \<Rightarrow> bool \<Rightarrow> nat \<Rightarrow> nat \<Rightarrow> jsnumber option" where
  "search_ratio x s p q =
     search x s p q (decimal_exponent p q)
       [1, 2, 3, 4, 5, 6, 7, 8, 9, 10, 11, 12, 13, 14, 15, 16, 17]"

fun shortest :: "binary64 \<Rightarrow> jsnumber option" where
  "shortest (Finite s m e) =
     (if m = 0 then Some (Number False [] 0)
      else if 0 \<le> e then search_ratio (Finite s m e) s (m * 2 ^ nat e) 1
      else search_ratio (Finite s m e) s m (2 ^ nat (- e)))"
| "shortest (Inf s) = Some (Infinity s)"
| "shortest NaN = None"

text \<open>The Number that a decimal literal denotes: the shortest decimal of its binary64 value.\<close>

definition canonical :: "jsnumber \<Rightarrow> jsnumber" where
  "canonical d = (case shortest (to_binary64 d) of Some d' \<Rightarrow> d' | None \<Rightarrow> d)"

definition mk_number :: "bool \<Rightarrow> nat list \<Rightarrow> int \<Rightarrow> jsnumber" where
  "mk_number neg ds e = canonical (normalise neg ds e)"


section \<open>JSON values and \<^verbatim>\<open>JSON.parse\<close>\<close>

datatype json =
    JNull
  | JBool bool
  | JNumber jsnumber
  | JString jsstring
  | JArray "json list"
  | JObject "(jsstring \<times> json) list"

datatype token =
    TLBrace | TRBrace | TLBracket | TRBracket | TColon | TComma
  | TString jsstring | TNumber jsnumber | TTrue | TFalse | TNull

text \<open>JSON whitespace is SPACE, TAB, LF and CR only.\<close>

definition is_json_ws :: "jschar \<Rightarrow> bool" where
  "is_json_ws c \<longleftrightarrow> c = 0x20 \<or> c = 0x09 \<or> c = 0x0A \<or> c = 0x0D"

definition is_digit :: "jschar \<Rightarrow> bool" where
  "is_digit c \<longleftrightarrow> 0x30 \<le> c \<and> c \<le> 0x39"

definition digit_val :: "jschar \<Rightarrow> nat" where
  "digit_val c = unat c - 48"

definition hex_val :: "jschar \<Rightarrow> nat option" where
  "hex_val c =
     (if 0x30 \<le> c \<and> c \<le> 0x39 then Some (unat c - 48)
      else if 0x41 \<le> c \<and> c \<le> 0x46 then Some (unat c - 55)
      else if 0x61 \<le> c \<and> c \<le> 0x66 then Some (unat c - 87)
      else None)"

definition hex4 :: "jschar \<Rightarrow> jschar \<Rightarrow> jschar \<Rightarrow> jschar \<Rightarrow> jschar option" where
  "hex4 a b c d =
     (case (hex_val a, hex_val b, hex_val c, hex_val d) of
        (Some x, Some y, Some z, Some w) \<Rightarrow> Some (of_nat (((x * 16 + y) * 16 + z) * 16 + w))
      | _ \<Rightarrow> None)"

definition simple_escape :: "jschar \<Rightarrow> jschar option" where
  "simple_escape e =
     (if e = 0x22 then Some 0x22
      else if e = 0x5C then Some 0x5C
      else if e = 0x2F then Some 0x2F
      else if e = 0x62 then Some 0x08
      else if e = 0x66 then Some 0x0C
      else if e = 0x6E then Some 0x0A
      else if e = 0x72 then Some 0x0D
      else if e = 0x74 then Some 0x09
      else None)"

text \<open>
  The characters of a string literal after its opening quote: the decoded string and the
  input after the closing quote. A control character, a bad escape or a missing closing
  quote is an error.
\<close>

fun lex_string :: "jsstring \<Rightarrow> (jsstring \<times> jsstring) option" where
  "lex_string [] = None"
| "lex_string (c # cs) =
     (if c = 0x22 then Some ([], cs)
      else if c = 0x5C then
        (case cs of
           [] \<Rightarrow> None
         | e # es \<Rightarrow>
             if e = 0x75 then
               (case es of
                  h1 # h2 # h3 # h4 # r \<Rightarrow>
                    (case hex4 h1 h2 h3 h4 of
                       None \<Rightarrow> None
                     | Some u \<Rightarrow> map_option (\<lambda>(s, t). (u # s, t)) (lex_string r))
                | _ \<Rightarrow> None)
             else
               (case simple_escape e of
                  None \<Rightarrow> None
                | Some x \<Rightarrow> map_option (\<lambda>(s, t). (x # s, t)) (lex_string es)))
      else if c < 0x20 then None
      else map_option (\<lambda>(s, t). (c # s, t)) (lex_string cs))"

definition decimal_value :: "jsstring \<Rightarrow> nat" where
  "decimal_value ds = foldl (\<lambda>a c. 10 * a + digit_val c) 0 ds"

definition lex_int :: "jsstring \<Rightarrow> (jsstring \<times> jsstring) option" where
  "lex_int s =
     (case s of
        [] \<Rightarrow> None
      | c # r \<Rightarrow>
          if c = 0x30 then Some ([c], r)
          else if is_digit c then Some (takeWhile is_digit s, dropWhile is_digit s)
          else None)"

definition lex_frac :: "jsstring \<Rightarrow> (jsstring \<times> jsstring) option" where
  "lex_frac s =
     (case s of
        [] \<Rightarrow> Some ([], s)
      | c # r \<Rightarrow>
          if c = 0x2E then
            (if takeWhile is_digit r = [] then None
             else Some (takeWhile is_digit r, dropWhile is_digit r))
          else Some ([], s))"

definition lex_sign :: "jsstring \<Rightarrow> int \<times> jsstring" where
  "lex_sign s =
     (case s of
        [] \<Rightarrow> (1, s)
      | c # r \<Rightarrow> if c = 0x2B then (1, r) else if c = 0x2D then (- 1, r) else (1, s))"

definition lex_exp :: "jsstring \<Rightarrow> (int \<times> jsstring) option" where
  "lex_exp s =
     (case s of
        [] \<Rightarrow> Some (0, s)
      | c # r \<Rightarrow>
          if c = 0x65 \<or> c = 0x45 then
            (case lex_sign r of
               (sg, r1) \<Rightarrow>
                 if takeWhile is_digit r1 = [] then None
                 else Some (sg * int (decimal_value (takeWhile is_digit r1)),
                            dropWhile is_digit r1))
          else Some (0, s))"

text \<open>
  A number literal: an optional minus, an integer part without a superfluous leading
  zero, an optional fraction and an optional exponent.
\<close>

definition lex_number :: "jsstring \<Rightarrow> (jsnumber \<times> jsstring) option" where
  "lex_number s =
     (case (case s of [] \<Rightarrow> (False, s) | c # r \<Rightarrow> if c = 0x2D then (True, r) else (False, s)) of
        (neg, s1) \<Rightarrow>
          (case lex_int s1 of
             None \<Rightarrow> None
           | Some (ip, s2) \<Rightarrow>
               (case lex_frac s2 of
                  None \<Rightarrow> None
                | Some (fp, s3) \<Rightarrow>
                    (case lex_exp s3 of
                       None \<Rightarrow> None
                     | Some (ex, s4) \<Rightarrow>
                         Some (mk_number neg (map digit_val (ip @ fp)) (ex - int (length fp)),
                               s4)))))"

lemma lex_string_shorter: "lex_string s = Some (x, r) \<Longrightarrow> length r < length s"
proof (induction s arbitrary: x r rule: lex_string.induct)
  case 1
  then show ?case by simp
next
  case (2 c cs)
  then show ?case
    by (auto split: if_splits list.splits option.splits) fastforce+
qed

lemma lex_int_shorter: "lex_int s = Some (x, r) \<Longrightarrow> length r < length s"
  by (auto simp: lex_int_def split: list.splits if_splits
      intro: le_imp_less_Suc length_dropWhile_le)

lemma lex_frac_shorter: "lex_frac s = Some (x, r) \<Longrightarrow> length r \<le> length s"
  by (auto simp: lex_frac_def split: list.splits if_splits
      intro: le_SucI length_dropWhile_le)

lemma lex_sign_shorter: "lex_sign s = (x, r) \<Longrightarrow> length r \<le> length s"
  by (auto simp: lex_sign_def split: list.splits if_splits)

lemma lex_exp_shorter: "lex_exp s = Some (x, r) \<Longrightarrow> length r \<le> length s"
  by (auto simp: lex_exp_def split: list.splits if_splits prod.splits
      dest!: lex_sign_shorter intro: le_SucI order_trans[OF length_dropWhile_le])

lemma lex_number_shorter: "lex_number s = Some (x, r) \<Longrightarrow> length r < length s"
  by (auto simp: lex_number_def split: list.splits if_splits option.splits prod.splits
      dest!: lex_int_shorter lex_frac_shorter lex_exp_shorter)

text \<open>The tokens of a JSON text; whitespace between tokens is skipped.\<close>

function lex :: "jsstring \<Rightarrow> token list option" where
  "lex [] = Some []"
| "lex (c # cs) =
     (if is_json_ws c then lex cs
      else if c = 0x7B then map_option ((#) TLBrace) (lex cs)
      else if c = 0x7D then map_option ((#) TRBrace) (lex cs)
      else if c = 0x5B then map_option ((#) TLBracket) (lex cs)
      else if c = 0x5D then map_option ((#) TRBracket) (lex cs)
      else if c = 0x3A then map_option ((#) TColon) (lex cs)
      else if c = 0x2C then map_option ((#) TComma) (lex cs)
      else if c = 0x22 then
        (case lex_string cs of
           None \<Rightarrow> None
         | Some (s, r) \<Rightarrow> map_option ((#) (TString s)) (lex r))
      else if c = 0x2D \<or> is_digit c then
        (case lex_number (c # cs) of
           None \<Rightarrow> None
         | Some (n, r) \<Rightarrow> map_option ((#) (TNumber n)) (lex r))
      else if startsWith (c # cs) (js ''true'') then map_option ((#) TTrue) (lex (drop 3 cs))
      else if startsWith (c # cs) (js ''false'') then map_option ((#) TFalse) (lex (drop 4 cs))
      else if startsWith (c # cs) (js ''null'') then map_option ((#) TNull) (lex (drop 3 cs))
      else None)"
  by pat_completeness auto
termination
  by (relation "measure length")
     (auto dest: lex_string_shorter lex_number_shorter intro: le_imp_less_Suc)

text \<open>
  The own properties of an object are kept in enumeration order: array indices (canonical
  numeric keys below \<open>2\<^sup>3\<^sup>2 - 1\<close>) ascending, then the other keys in creation order.
  \<open>obj_put\<close> is the definition of one property; a repeated key keeps its place and takes
  the later value.
\<close>

definition array_index :: "jsstring \<Rightarrow> nat option" where
  "array_index k =
     (if k \<noteq> [] \<and> list_all is_digit k \<and> (length k = 1 \<or> hd k \<noteq> 0x30) \<and>
         decimal_value k < 4294967295
      then Some (decimal_value k) else None)"

fun insert_index ::
  "nat \<Rightarrow> jsstring \<Rightarrow> json \<Rightarrow> (jsstring \<times> json) list \<Rightarrow> (jsstring \<times> json) list" where
  "insert_index i k v [] = [(k, v)]"
| "insert_index i k v ((k', v') # ps) =
     (case array_index k' of
        None \<Rightarrow> (k, v) # (k', v') # ps
      | Some j \<Rightarrow> if i < j then (k, v) # (k', v') # ps else (k', v') # insert_index i k v ps)"

definition obj_put ::
  "jsstring \<Rightarrow> json \<Rightarrow> (jsstring \<times> json) list \<Rightarrow> (jsstring \<times> json) list" where
  "obj_put k v ps =
     (if k \<in> fst ` set ps then map (\<lambda>(k', v'). if k' = k then (k', v) else (k', v')) ps
      else (case array_index k of None \<Rightarrow> ps @ [(k, v)] | Some i \<Rightarrow> insert_index i k v ps))"

text \<open>
  The JSON grammar over tokens. Each function returns the value it read and the tokens
  left. The test \<open>length r < length ts\<close> on the tokens left by a value always succeeds
  (\<open>parse_value_shorter\<close> below); it makes the recursion well-founded.
\<close>

function parse_value :: "token list \<Rightarrow> (json \<times> token list) option"
  and parse_elements :: "json list \<Rightarrow> token list \<Rightarrow> (json \<times> token list) option"
  and parse_members :: "(jsstring \<times> json) list \<Rightarrow> token list \<Rightarrow> (json \<times> token list) option"
where
  "parse_value [] = None"
| "parse_value (t # ts) =
     (case t of
        TNull \<Rightarrow> Some (JNull, ts)
      | TTrue \<Rightarrow> Some (JBool True, ts)
      | TFalse \<Rightarrow> Some (JBool False, ts)
      | TNumber n \<Rightarrow> Some (JNumber n, ts)
      | TString s \<Rightarrow> Some (JString s, ts)
      | TLBracket \<Rightarrow>
          (case ts of
             TRBracket # r \<Rightarrow> Some (JArray [], r)
           | _ \<Rightarrow> parse_elements [] ts)
      | TLBrace \<Rightarrow>
          (case ts of
             TRBrace # r \<Rightarrow> Some (JObject [], r)
           | _ \<Rightarrow> parse_members [] ts)
      | _ \<Rightarrow> None)"
| "parse_elements acc ts =
     (case parse_value ts of
        None \<Rightarrow> None
      | Some (v, r) \<Rightarrow>
          if length r < length ts then
            (case r of
               TComma # r' \<Rightarrow> parse_elements (acc @ [v]) r'
             | TRBracket # r' \<Rightarrow> Some (JArray (acc @ [v]), r')
             | _ \<Rightarrow> None)
          else None)"
| "parse_members acc ts =
     (case ts of
        TString k # TColon # r \<Rightarrow>
          (case parse_value r of
             None \<Rightarrow> None
           | Some (v, r2) \<Rightarrow>
               if length r2 < length r then
                 (case r2 of
                    TComma # r3 \<Rightarrow> parse_members (obj_put k v acc) r3
                  | TRBrace # r3 \<Rightarrow> Some (JObject (obj_put k v acc), r3)
                  | _ \<Rightarrow> None)
               else None)
      | _ \<Rightarrow> None)"
  by pat_completeness auto
termination
  by (relation "measure (\<lambda>x. case x of
          Inl ts \<Rightarrow> 2 * length ts
        | Inr (Inl (acc, ts)) \<Rightarrow> 2 * length ts + 1
        | Inr (Inr (acc, ts)) \<Rightarrow> 2 * length ts + 1)")
     auto

declare parse_elements.simps [simp del] parse_members.simps [simp del]

text \<open>A JSON text is one value between optional whitespace, and nothing else.\<close>

definition parse_json :: "jsstring \<Rightarrow> json option" where
  "parse_json s =
     (case lex s of
        None \<Rightarrow> None
      | Some ts \<Rightarrow> (case parse_value ts of Some (v, []) \<Rightarrow> Some v | _ \<Rightarrow> None))"

text \<open>
  \<^verbatim>\<open>JSON.parse(s)\<close> returns the value or throws a SyntaxError. The wording of the
  error's message is the engine's; it is a function of the text that failed to parse and
  is taken as the parameter \<open>emsg\<close>. \<open>Inl\<close> carries the message of the error thrown.
\<close>

definition JSON_parse :: "(jsstring \<Rightarrow> jsstring) \<Rightarrow> jsstring \<Rightarrow> jsstring + json" where
  "JSON_parse emsg s = (case parse_json s of None \<Rightarrow> Inl (emsg s) | Some v \<Rightarrow> Inr v)"


section \<open>The command bridge: \<^verbatim>\<open>runPythonScript\<close>\<close>

text \<open>
  The promise returned by \<^verbatim>\<open>runPythonScript\<close> is pending until the first call of
  \<^verbatim>\<open>resolve\<close> or \<^verbatim>\<open>reject\<close>; later calls have no effect. A rejection is
  \<^verbatim>\<open>new Error(message)\<close>: \<open>Rejected\<close> carries the message. The lines written with
  \<^verbatim>\<open>console.error\<close> are kept in \<open>console\<close>.
\<close>

datatype settled = Pending | Resolved json | Rejected jsstring

datatype log_entry =
    LogParseError jsstring
  | LogRawOutput jsstring
  | LogScriptError jsstring
  | LogSpawnError jsstring

record bridge =
  dataString :: jsstring
  errorString :: jsstring
  promise :: settled
  console :: "log_entry list"

definition resolve :: "json \<Rightarrow> bridge \<Rightarrow> bridge" where
  "resolve v b = (if promise b = Pending then b\<lparr>promise := Resolved v\<rparr> else b)"

definition reject :: "jsstring \<Rightarrow> bridge \<Rightarrow> bridge" where
  "reject m b = (if promise b = Pending then b\<lparr>promise := Rejected m\<rparr> else b)"

definition console_error :: "log_entry \<Rightarrow> bridge \<Rightarrow> bridge" where
  "console_error l b = b\<lparr>console := console b @ [l]\<rparr>"

text \<open>
  The events of the child process, in the order its listeners run: a chunk of standard
  output or of standard error (decoded as UTF-8), \<^verbatim>\<open>close\<close> with the exit code
  (\<^verbatim>\<open>null\<close>, here \<open>None\<close>, when a signal ended the process), and \<^verbatim>\<open>error\<close> with
  the system error's message.
\<close>

datatype event =
    StdoutData jsstring
  | StderrData jsstring
  | Close "int option"
  | ProcessError jsstring

text \<open>The \<^verbatim>\<open>for\<close> loop over the lines: the first line whose trimmed text starts with a brace, trimmed; the empty string when there is none.\<close>

fun find_json_line :: "jsstring list \<Rightarrow> jsstring" where
  "find_json_line [] = []"
| "find_json_line (line # lines) =
     (if startsWith (trim line) (js ''{'') then trim line else find_json_line lines)"

definition exit_code_to_string :: "int option \<Rightarrow> jsstring" where
  "exit_code_to_string code = (case code of None \<Rightarrow> js ''null'' | Some i \<Rightarrow> int_to_string i)"

definition on_close :: "(jsstring \<Rightarrow> jsstring) \<Rightarrow> int option \<Rightarrow> bridge \<Rightarrow> bridge" where
  "on_close emsg code b =
     (if code = Some 0 then
        (let lines = split 0x0A (dataString b);
             jsonLine = find_json_line lines
         in case (if jsonLine \<noteq> [] then JSON_parse emsg jsonLine
                  else JSON_parse emsg (trim (dataString b))) of
              Inr result \<Rightarrow> resolve result b
            | Inl message \<Rightarrow>
                reject (js ''Failed to parse Python output: '' @ message)
                  (console_error (LogRawOutput (dataString b))
                    (console_error (LogParseError message) b)))
      else
        reject (js ''Python script failed with code '' @ exit_code_to_string code @ js '': '' @
                errorString b)
          (console_error (LogScriptError (errorString b)) b))"

definition on_error :: "jsstring \<Rightarrow> bridge \<Rightarrow> bridge" where
  "on_error m b =
     reject (js ''Failed to start Python process: '' @ m) (console_error (LogSpawnError m) b)"

fun dispatch :: "(jsstring \<Rightarrow> jsstring) \<Rightarrow> bridge \<Rightarrow> event \<Rightarrow> bridge" where
  "dispatch emsg b (StdoutData d) = b\<lparr>dataString := dataString b @ d\<rparr>"
| "dispatch emsg b (StderrData d) = b\<lparr>errorString := errorString b @ d\<rparr>"
| "dispatch emsg b (Close code) = on_close emsg code b"
| "dispatch emsg b (ProcessError m) = on_error m b"

definition initial :: bridge where
  "initial = \<lparr>dataString = [], errorString = [], promise = Pending, console = []\<rparr>"

text \<open>
  \<^verbatim>\<open>spawn\<close> either returns the child process or throws: for some system errors Node
  raises the error at once instead of emitting an \<^verbatim>\<open>error\<close> event. The call stands in
  the executor of the promise, so an error thrown there rejects the promise with that
  error, and no listener is registered.

  \<open>python\<close> is the interpreter as the system runs it: for the argument vector, the error
  thrown by \<^verbatim>\<open>spawn\<close>, or the events the child process emits over its whole life.
  \<open>runPythonScript\<close> is the state of the invocation after all of them.
\<close>

datatype spawned = SpawnThrows jsstring | ChildProcess "event list"

definition runPythonScript ::
  "(jsstring \<Rightarrow> jsstring) \<Rightarrow> (jsstring list \<Rightarrow> spawned) \<Rightarrow> jsstring list \<Rightarrow> bridge" where
  "runPythonScript emsg python scriptArgs =
     (case python (js ''web_integration.py'' # scriptArgs) of
        SpawnThrows error \<Rightarrow> initial\<lparr>promise := Rejected error\<rparr>
      | ChildProcess events \<Rightarrow> foldl (dispatch emsg) initial events)"


section \<open>Runs of the bridge\<close>

text \<open>
  Vocabulary for statements about a run: the data events, the standard output and the
  standard error accumulated over a list of events, a line whose trimmed text starts with
  a brace, the text that an exit with code 0 hands to \<^verbatim>\<open>JSON.parse\<close>, and the
  message of the rejection after a parse error.
\<close>

fun is_data :: "event \<Rightarrow> bool" where
  "is_data (StdoutData d) = True"
| "is_data (StderrData d) = True"
| "is_data (Close code) = False"
| "is_data (ProcessError m) = False"

fun stdout_of :: "event list \<Rightarrow> jsstring" where
  "stdout_of [] = []"
| "stdout_of (StdoutData d # evs) = d @ stdout_of evs"
| "stdout_of (e # evs) = stdout_of evs"

fun stderr_of :: "event list \<Rightarrow> jsstring" where
  "stderr_of [] = []"
| "stderr_of (StderrData d # evs) = d @ stderr_of evs"
| "stderr_of (e # evs) = stderr_of evs"

fun events_of :: "spawned \<Rightarrow> event list" where
  "events_of (ChildProcess evs) = evs"
| "events_of (SpawnThrows error) = []"

definition starts_with_brace :: "jsstring \<Rightarrow> bool" where
  "starts_with_brace line \<longleftrightarrow> startsWith (trim line) (js ''{'')"

definition parsed_text :: "jsstring \<Rightarrow> jsstring" where
  "parsed_text out =
     (if find_json_line (split 0x0A out) \<noteq> [] then find_json_line (split 0x0A out)
      else trim out)"

definition parse_failure :: "jsstring \<Rightarrow> jsstring" where
  "parse_failure m = js ''Failed to parse Python output: '' @ m"

text \<open>
  Workers used as concrete inputs, and a sample of an engine's wording of a SyntaxError
  (it quotes the text that failed to parse, as current engines do).
\<close>

definition sample_message :: "jsstring \<Rightarrow> jsstring" where
  "sample_message s = js ''Unexpected token in JSON text '' @ s"

definition crashed_worker :: "jsstring list \<Rightarrow> spawned" where
  \<open>crashed_worker argv =
     ChildProcess
       [StdoutData (js ''{"success": true}''), StderrData (js ''Traceback: boom''), Close (Some 1)]\<close>

definition hung_worker :: "jsstring list \<Rightarrow> spawned" where
  "hung_worker argv = ChildProcess
       [StdoutData (js ''Loading data...'')]"

definition missing_interpreter :: "jsstring list \<Rightarrow> spawned" where
  "missing_interpreter argv = ChildProcess
       [ProcessError (js ''spawn python ENOENT''), Close (Some (- 2))]"

definition two_results_worker :: "jsstring list \<Rightarrow> spawned" where
  \<open>two_results_worker argv =
     ChildProcess
       [StdoutData (js ''Loading'' @ [0x0A] @ js ''{"step": 1}'' @ [0x0A]),
        StderrData (js ''warning''),
        StdoutData (js ''{"success": true}'' @ [0x0A]),
        Close (Some 0)]\<close>

definition array_worker :: "jsstring list \<Rightarrow> spawned" where
  \<open>array_worker argv = ChildProcess
       [StdoutData (js ''[true,'' @ [0x0A] @ js '' null]'' @ [0x0A]), Close (Some 0)]\<close>

definition pretty_worker :: "jsstring list \<Rightarrow> spawned" where
  \<open>pretty_worker argv =
     ChildProcess
       [StdoutData (js ''{'' @ [0x0A] @ js ''  "success": true'' @ [0x0A] @ js ''}'' @ [0x0A]),
        Close (Some 0)]\<close>

definition garbage_worker_a :: "jsstring list \<Rightarrow> spawned" where
  "garbage_worker_a argv = ChildProcess
       [StdoutData (js ''{x'' @ [0x0A] @ js ''foo''), Close (Some 0)]"

definition garbage_worker_b :: "jsstring list \<Rightarrow> spawned" where
  "garbage_worker_b argv = ChildProcess
       [StdoutData (js ''{x'' @ [0x0A] @ js ''bar''), Close (Some 0)]"

definition silent_worker :: "jsstring list \<Rightarrow> spawned" where
  "silent_worker argv = ChildProcess
       [Close (Some 0)]"

definition noisy_worker :: "jsstring list \<Rightarrow> spawned" where
  \<open>noisy_worker argv =
     ChildProcess
       [StdoutData (js ''{'step': 1}'' @ [0x0A] @ js ''{"success": true}''), Close (Some 0)]\<close>

definition missing_script :: "jsstring list \<Rightarrow> spawned" where
  \<open>missing_script argv =
     ChildProcess
       [StderrData
          (js ''python: can't open file 'web_integration.py': [Errno 2] No such file or directory'' @
           [0x0A]),
        Close (Some 2)]\<close>

definition refused_spawn :: "jsstring list \<Rightarrow> spawned" where
  "refused_spawn argv = SpawnThrows (js ''spawn ENOMEM'')"

definition indented_worker :: "jsstring list \<Rightarrow> spawned" where
  \<open>indented_worker argv =
     ChildProcess
       [StdoutData (js ''Loading data...'' @ [0x0D, 0x0A] @ js ''  {"success": true}'' @ [0x0D, 0x0A]),
        StdoutData (js ''Done.''),
        Close (Some 0)]\<close>


section \<open>Values and conversions\<close>

text \<open>Number::toString of a Number, from its digits \<open>d\<^sub>1 \<dots> d\<^sub>k\<close> and its exponent \<open>n\<close>.\<close>

fun number_to_string :: "jsnumber \<Rightarrow> jsstring" where
  "number_to_string (Infinity s) = (if s then js ''-Infinity'' else js ''Infinity'')"
| "number_to_string (Number neg ds n) =
     (if ds = [] then js ''0''
      else
        (if neg then js ''-'' else []) @
        (if int_length ds \<le> n \<and> n \<le> 21 then
           map digit_char ds @ replicate (nat (n - int_length ds)) 0x30
         else if 0 < n \<and> n \<le> 21 then
           map digit_char (take (nat n) ds) @ js ''.'' @ map digit_char (drop (nat n) ds)
         else if - 6 < n \<and> n \<le> 0 then
           js ''0.'' @ replicate (nat (- n)) 0x30 @ map digit_char ds
         else
           map digit_char (take 1 ds) @
           (if int_length ds = 1 then [] else js ''.'' @ map digit_char (drop 1 ds)) @
           js ''e'' @ (if n - 1 < 0 then js ''-'' else js ''+'') @ nat_to_string (nat \<bar>n - 1\<bar>)))"

text \<open>
  The exact decimal of a finite binary64 value, and Number::toString of a binary64 value
  that arithmetic has produced.
\<close>

fun exact_decimal :: "binary64 \<Rightarrow> jsnumber" where
  "exact_decimal (Finite s m e) =
     (if 0 \<le> e then normalise s (nat_digits (m * 2 ^ nat e)) 0
      else normalise s (nat_digits (m * 5 ^ nat (- e))) e)"
| "exact_decimal (Inf s) = Infinity s"
| "exact_decimal NaN = Number False [] 0"

definition binary64_to_string :: "binary64 \<Rightarrow> jsstring" where
  "binary64_to_string x =
     (if x = NaN then js ''NaN''
      else number_to_string (case shortest x of Some d \<Rightarrow> d | None \<Rightarrow> exact_decimal x))"

text \<open>
  A value read from a JSON value: \<open>None\<close> is \<^verbatim>\<open>undefined\<close>. \<open>get_prop\<close> reads a property
  that no prototype defines (every key the handlers read is one): an own property of an
  object, \<^verbatim>\<open>undefined\<close> on any other value. Reading a property of \<^verbatim>\<open>undefined\<close> or
  \<^verbatim>\<open>null\<close> throws a TypeError.
\<close>

type_synonym jsvalue = "json option"

datatype js_error = TypeError

fun get_prop :: "json \<Rightarrow> jsstring \<Rightarrow> jsvalue" where
  "get_prop (JObject ps) k = map_of ps k"
| "get_prop v k = None"

definition member :: "jsvalue \<Rightarrow> jsstring \<Rightarrow> js_error + jsvalue" where
  "member v k =
     (case v of
        None \<Rightarrow> Inl TypeError
      | Some JNull \<Rightarrow> Inl TypeError
      | Some x \<Rightarrow> Inr (get_prop x k))"

fun truthy :: "jsvalue \<Rightarrow> bool" where
  "truthy None = False"
| "truthy (Some JNull) = False"
| "truthy (Some (JBool b)) = b"
| "truthy (Some (JNumber d)) = (d \<noteq> Number False [] 0)"
| "truthy (Some (JString s)) = (s \<noteq> [])"
| "truthy (Some (JArray xs)) = True"
| "truthy (Some (JObject ps)) = True"

fun join :: "jsstring \<Rightarrow> jsstring list \<Rightarrow> jsstring" where
  "join sep [] = []"
| "join sep [x] = x"
| "join sep (x # y # ys) = x @ sep @ join sep (y # ys)"

text \<open>ToString, as a template literal applies it. An array is joined with commas, \<^verbatim>\<open>null\<close> elements empty.\<close>

fun to_string :: "json \<Rightarrow> jsstring" where
  "to_string JNull = js ''null''"
| "to_string (JBool b) = (if b then js ''true'' else js ''false'')"
| "to_string (JNumber d) = number_to_string d"
| "to_string (JString s) = s"
| "to_string (JArray xs) = join (js '','') (map (\<lambda>x. if x = JNull then [] else to_string x) xs)"
| "to_string (JObject ps) = js ''[object Object]''"

definition ToString :: "jsvalue \<Rightarrow> jsstring" where
  "ToString v = (case v of None \<Rightarrow> js ''undefined'' | Some x \<Rightarrow> to_string x)"

text \<open>
  StringToNumber: the trimmed text is empty (zero), a hexadecimal, octal or binary
  integer, or a signed decimal or \<^verbatim>\<open>Infinity\<close>; anything else is NaN.
\<close>

definition radix_digit :: "nat \<Rightarrow> jschar \<Rightarrow> nat option" where
  "radix_digit b c = (case hex_val c of Some d \<Rightarrow> if d < b then Some d else None | None \<Rightarrow> None)"

definition radix_value :: "nat \<Rightarrow> jsstring \<Rightarrow> binary64" where
  "radix_value b ds =
     (if ds \<noteq> [] \<and> list_all (\<lambda>c. radix_digit b c \<noteq> None) ds
      then round_binary64 False
             (foldl (\<lambda>a c. case radix_digit b c of Some d \<Rightarrow> b * a + d | None \<Rightarrow> b * a) 0 ds) 1
      else NaN)"

definition decimal_literal :: "bool \<Rightarrow> jsstring \<Rightarrow> binary64" where
  "decimal_literal neg s =
     (if s = js ''Infinity'' then Inf neg
      else
        case lex_frac (dropWhile is_digit s) of
          None \<Rightarrow>
            (if takeWhile is_digit s \<noteq> [] \<and> startsWith (dropWhile is_digit s) (js ''.'')
             then (case lex_exp (drop 1 (dropWhile is_digit s)) of
                     Some (ex, []) \<Rightarrow>
                       to_binary64 (normalise neg (map digit_val (takeWhile is_digit s)) ex)
                   | _ \<Rightarrow> NaN)
             else NaN)
        | Some (fp, r) \<Rightarrow>
            (if takeWhile is_digit s = [] \<and> fp = [] then NaN
             else (case lex_exp r of
                     Some (ex, []) \<Rightarrow>
                       to_binary64
                         (normalise neg (map digit_val (takeWhile is_digit s @ fp))
                            (ex - int_length fp))
                   | _ \<Rightarrow> NaN)))"

definition string_to_number :: "jsstring \<Rightarrow> binary64" where
  "string_to_number s =
     (let t = trim s
      in if t = [] then Finite False 0 0
         else if startsWith t (js ''0x'') \<or> startsWith t (js ''0X'') then radix_value 16 (drop 2 t)
         else if startsWith t (js ''0o'') \<or> startsWith t (js ''0O'') then radix_value 8 (drop 2 t)
         else if startsWith t (js ''0b'') \<or> startsWith t (js ''0B'') then radix_value 2 (drop 2 t)
         else if startsWith t (js ''-'') then decimal_literal True (drop 1 t)
         else if startsWith t (js ''+'') then decimal_literal False (drop 1 t)
         else decimal_literal False t)"

fun to_number :: "json \<Rightarrow> binary64" where
  "to_number JNull = Finite False 0 0"
| "to_number (JBool b) = (if b then Finite False (2 ^ 52) (- 52) else Finite False 0 0)"
| "to_number (JNumber d) = to_binary64 d"
| "to_number (JString s) = string_to_number s"
| "to_number (JArray xs) = string_to_number (to_string (JArray xs))"
| "to_number (JObject ps) = NaN"

definition ToNumber :: "jsvalue \<Rightarrow> binary64" where
  "ToNumber v = (case v of None \<Rightarrow> NaN | Some x \<Rightarrow> to_number x)"

text \<open>The product of two Numbers, rounded once.\<close>

fun multiply :: "binary64 \<Rightarrow> binary64 \<Rightarrow> binary64" where
  "multiply NaN y = NaN"
| "multiply x NaN = NaN"
| "multiply (Inf s) (Inf t) = Inf (s \<noteq> t)"
| "multiply (Inf s) (Finite t m e) = (if m = 0 then NaN else Inf (s \<noteq> t))"
| "multiply (Finite s m e) (Inf t) = (if m = 0 then NaN else Inf (s \<noteq> t))"
| "multiply (Finite s m e) (Finite t m' e') =
     (if 0 \<le> e + e' then round_binary64 (s \<noteq> t) (m * m' * 2 ^ nat (e + e')) 1
      else round_binary64 (s \<noteq> t) (m * m') (2 ^ nat (- (e + e'))))"

text \<open>
  \<^verbatim>\<open>x.toFixed(f)\<close>: the integer \<open>n\<close> nearest to \<open>x \<times> 10\<^sup>f\<close> (the larger one at a tie), printed
  with \<open>f\<close> digits after the point; Number::toString from \<open>10\<^sup>2\<^sup>1\<close> on and for a value
  that is not finite.
\<close>

definition fixed_digits :: "nat \<Rightarrow> nat \<Rightarrow> jsstring" where
  "fixed_digits f n =
     (let m = (if n = 0 then js ''0'' else nat_to_string n);
          p = replicate (Suc f - length m) 0x30 @ m
      in if f = 0 then m
         else take (length p - f) p @ js ''.'' @ drop (length p - f) p)"

fun toFixed :: "nat \<Rightarrow> binary64 \<Rightarrow> jsstring" where
  "toFixed f (Finite s m e) =
     (if (if 0 \<le> e then 10 ^ 21 \<le> m * 2 ^ nat e else 10 ^ 21 * 2 ^ nat (- e) \<le> m)
      then binary64_to_string (Finite s m e)
      else
        (if s \<and> m \<noteq> 0 then js ''-'' else []) @
        (if 0 \<le> e then fixed_digits f (m * 2 ^ nat e * 10 ^ f)
         else fixed_digits f ((2 * m * 10 ^ f + 2 ^ nat (- e)) div (2 * 2 ^ nat (- e)))))"
| "toFixed f x = binary64_to_string x"

text \<open>
  \<^verbatim>\<open>toLowerCase\<close>, exact on every code unit whose lower case holds an ASCII letter (the
  capitals, U+0130 and the Kelvin sign); other letters are left as they are, which a
  search for an ASCII keyword does not see.
\<close>

definition lower_unit :: "jschar \<Rightarrow> jsstring" where
  "lower_unit c =
     (if 0x41 \<le> c \<and> c \<le> 0x5A then [c + 0x20]
      else if c = 0x130 then [0x69, 0x307]
      else if c = 0x212A then [0x6B]
      else [c])"

definition toLowerCase :: "jsstring \<Rightarrow> jsstring" where
  "toLowerCase s = concat (map lower_unit s)"

fun str_includes :: "jsstring \<Rightarrow> jsstring \<Rightarrow> bool" where
  "str_includes [] sub = (sub = [])"
| "str_includes (c # cs) sub = (startsWith (c # cs) sub \<or> str_includes cs sub)"


section \<open>The chat handler\<close>

text \<open>
  The object given to \<^verbatim>\<open>res.json\<close>. A field that is \<^verbatim>\<open>undefined\<close> is left out of the
  response by \<^verbatim>\<open>JSON.stringify\<close>.
\<close>

record chat_response =
  success :: bool
  response :: jsvalue
  data :: jsvalue

definition lower_message :: "jsvalue \<Rightarrow> js_error + jsstring" where
  "lower_message message =
     (case message of Some (JString s) \<Rightarrow> Inr (toLowerCase s) | _ \<Rightarrow> Inl TypeError)"

definition percent :: "jsvalue \<Rightarrow> jsstring" where
  "percent v = toFixed 1 (multiply (ToNumber v) (to_binary64 (Number False [1] 3)))"

text \<open>The body of the \<^verbatim>\<open>try\<close> block once the report has arrived; \<open>Inl\<close> is a thrown error.\<close>

definition chat_body :: "jsvalue \<Rightarrow> json \<Rightarrow> js_error + chat_response" where
  "chat_body message result =
     (case member (Some result) (js ''success'') of
        Inl err \<Rightarrow> Inl err
      | Inr ok \<Rightarrow>
          if truthy ok then
            (let data = get_prop result (js ''project_data'');
                 analysis = get_prop result (js ''analysis'')
             in case lower_message message of
                  Inl err \<Rightarrow> Inl err
                | Inr m \<Rightarrow>
                    if str_includes m (js ''status'') \<or> str_includes m (js ''current'') then
                      (case (member data (js ''overall_completes''),
                             member data (js ''total_quota''),
                             member data (js ''completion_percentage'')) of
                         (Inr oc, Inr tq, Inr cp) \<Rightarrow>
                           Inr \<lparr>success = True,
                                response = Some (JString
                                  (js ''Current recruitment status: '' @ ToString oc @
                                   js '' out of '' @ ToString tq @
                                   js '' participants completed ('' @ percent cp @
                                   js ''% complete).'')),
                                data = data\<rparr>
                       | _ \<Rightarrow> Inl TypeError)
                    else if str_includes m (js ''report'') \<or> str_includes m (js ''latest'') then
                      Inr \<lparr>success = True, response = analysis, data = data\<rparr>
                    else if str_includes m (js ''progress'') then
                      (case (member data (js ''overall_completes''),
                             member data (js ''total_quota''),
                             member data (js ''completion_percentage'')) of
                         (Inr oc, Inr tq, Inr cp) \<Rightarrow>
                           Inr \<lparr>success = True,
                                response = Some (JString
                                  (js ''We've made good progress! Currently at '' @ ToString oc @
                                   js '' completes out of '' @ ToString tq @
                                   js '' target, which is '' @ percent cp @
                                   js ''% of our goal.'')),
                                data = data\<rparr>
                       | _ \<Rightarrow> Inl TypeError)
                    else
                      Inr \<lparr>success = True,
                           response = Some (JString (js ''Here's the latest update: '' @ ToString analysis)),
                           data = data\<rparr>)
          else
            Inr \<lparr>success = False,
                 response = Some (JString (js ''I'm having trouble accessing the latest data right now. Please try again in a moment.'')),
                 data = None\<rparr>)"

text \<open>
  \<^verbatim>\<open>POST /api/client/chat\<close> for the request body \<open>body\<close> (an object or an array, as
  \<^verbatim>\<open>express.json()\<close> delivers it) and the worker \<open>python\<close>. \<open>None\<close>: no response is sent,
  the report never arrives.
\<close>

definition chat ::
  "(jsstring \<Rightarrow> jsstring) \<Rightarrow> (jsstring list \<Rightarrow> spawned) \<Rightarrow> json \<Rightarrow> chat_response option" where
  "chat emsg python body =
     (let message = get_prop body (js ''message'')
      in case promise (runPythonScript emsg python [js ''generate_report'']) of
           Pending \<Rightarrow> None
         | Rejected err \<Rightarrow>
             Some \<lparr>success = False,
                   response = Some (JString (js ''I'm experiencing some technical difficulties. Please try again later.'')),
                   data = None\<rparr>
         | Resolved result \<Rightarrow>
             (case chat_body message result of
                Inl err \<Rightarrow>
                  Some \<lparr>success = False,
                        response = Some (JString (js ''I'm experiencing some technical difficulties. Please try again later.'')),
                        data = None\<rparr>
              | Inr r \<Rightarrow> Some r))"

definition report_output :: jsstring where
  \<open>report_output =
     js ''Loading data...'' @ [0x0A] @
     js ''{"success": true, "project_data": {"overall_completes": 45, "total_quota": 100, "completion_percentage": 0.45}, "analysis": "On track."}'' @
     [0x0A] @ js ''Done.''\<close>

definition report_worker :: "jsstring list \<Rightarrow> spawned" where
  \<open>report_worker argv =
     ChildProcess
       [StdoutData (js ''Loading data...'' @ [0x0A] @ js ''{"success": true, "project_data": ''),
        StderrData (js ''cache miss''),
        StdoutData
          (js ''{"overall_completes": 45, "total_quota": 100, "completion_percentage": 0.45}, "analysis": "On track."}'' @
           [0x0A] @ js ''Done.''),
        Close (Some 0)]\<close>

definition report :: json where
  "report =
     JObject
       [(js ''success'', JBool True),
        (js ''project_data'',
         JObject
           [(js ''overall_completes'', JNumber (Number False [4, 5] 2)),
            (js ''total_quota'', JNumber (Number False [1] 3)),
            (js ''completion_percentage'', JNumber (Number False [4, 5] 0))]),
        (js ''analysis'', JString (js ''On track.''))]"

definition status_request :: json where
  "status_request = JObject [(js ''message'', JString (js ''What is the status today?''))]"


section \<open>\<^verbatim>\<open>JSON.stringify\<close>\<close>










section \<open>The settings handlers\<close>






















section \<open>Values as \<^verbatim>\<open>JSON.parse\<close> builds them\<close>









section \<open>Evaluation and basic facts\<close>

lemma dispatch_settled: "promise b \<noteq> Pending \<Longrightarrow> promise (dispatch emsg b e) = promise b"
  by (cases e)
     (auto simp: on_close_def on_error_def resolve_def reject_def console_error_def Let_def
           split: sum.splits)

lemma foldl_settled:
  "promise b \<noteq> Pending \<Longrightarrow> promise (foldl (dispatch emsg) b evs) = promise b"
  by (induction evs arbitrary: b) (simp_all add: dispatch_settled)

lemma foldl_data:
  "list_all is_data evs \<Longrightarrow>
   foldl (dispatch emsg) b evs =
   b\<lparr>dataString := dataString b @ stdout_of evs, errorString := errorString b @ stderr_of evs\<rparr>"
proof (induction evs arbitrary: b)
  case Nil
  then show ?case by simp
next
  case (Cons e evs)
  then show ?case by (cases e) simp_all
qed

lemma foldl_data_initial:
  "list_all is_data evs \<Longrightarrow>
   foldl (dispatch emsg) initial evs =
   \<lparr>dataString = stdout_of evs, errorString = stderr_of evs, promise = Pending, console = []\<rparr>"
  by (simp add: foldl_data initial_def)

lemma run_first_terminal:
  assumes "python (js ''web_integration.py'' # scriptArgs) = ChildProcess (pre @ t # post)"
    and "list_all is_data pre"
    and "promise (dispatch emsg \<lparr>dataString = stdout_of pre, errorString = stderr_of pre,
            promise = Pending, console = []\<rparr> t) \<noteq> Pending"
  shows "promise (runPythonScript emsg python scriptArgs) =
         promise (dispatch emsg \<lparr>dataString = stdout_of pre, errorString = stderr_of pre,
            promise = Pending, console = []\<rparr> t)"
  using assms by (simp add: runPythonScript_def foldl_data_initial foldl_settled)

lemma on_close_nonzero:
  "code \<noteq> Some 0 \<Longrightarrow> promise b = Pending \<Longrightarrow>
   promise (on_close emsg code b) =
   Rejected (js ''Python script failed with code '' @ exit_code_to_string code @ js '': '' @
             errorString b)"
  by (simp add: on_close_def reject_def console_error_def)

lemma on_close_zero:
  "promise b = Pending \<Longrightarrow>
   promise (on_close emsg (Some 0) b) =
   (case JSON_parse emsg
           (if find_json_line (split 0x0A (dataString b)) \<noteq> []
            then find_json_line (split 0x0A (dataString b)) else trim (dataString b)) of
      Inr v \<Rightarrow> Resolved v
    | Inl m \<Rightarrow> Rejected (js ''Failed to parse Python output: '' @ m))"
  by (simp add: on_close_def resolve_def reject_def console_error_def Let_def split: sum.splits)

lemma startsWith_nonempty: "startsWith s (js ''{'') \<Longrightarrow> s \<noteq> []"
  by (auto simp: startsWith_def js_def)

lemma find_json_line_first:
  "list_all (\<lambda>p. \<not> startsWith (trim p) (js ''{'')) ls1 \<Longrightarrow> startsWith (trim l) (js ''{'') \<Longrightarrow>
   find_json_line (ls1 @ l # ls2) = trim l"
  by (induction ls1) simp_all

lemma find_json_line_none:
  "list_all (\<lambda>p. \<not> startsWith (trim p) (js ''{'')) ls \<Longrightarrow> find_json_line ls = []"
  by (induction ls) simp_all

lemma run_exit_zero:
  assumes "python (js ''web_integration.py'' # scriptArgs) = ChildProcess (pre @ Close (Some 0) # post)"
    and "list_all is_data pre"
  shows "promise (runPythonScript emsg python scriptArgs) =
   (case JSON_parse emsg
           (if find_json_line (split 0x0A (stdout_of pre)) \<noteq> []
            then find_json_line (split 0x0A (stdout_of pre)) else trim (stdout_of pre)) of
      Inr v \<Rightarrow> Resolved v
    | Inl m \<Rightarrow> Rejected (js ''Failed to parse Python output: '' @ m))"
proof -
  let ?b = "\<lparr>dataString = stdout_of pre, errorString = stderr_of pre,
            promise = Pending, console = []\<rparr>"
  have z: "promise (dispatch emsg ?b (Close (Some 0))) =
     (case JSON_parse emsg
           (if find_json_line (split 0x0A (stdout_of pre)) \<noteq> []
            then find_json_line (split 0x0A (stdout_of pre)) else trim (stdout_of pre)) of
      Inr v \<Rightarrow> Resolved v
    | Inl m \<Rightarrow> Rejected (js ''Failed to parse Python output: '' @ m))"
    using on_close_zero[of ?b emsg] by simp
  then have "promise (dispatch emsg ?b (Close (Some 0))) \<noteq> Pending"
    by (simp split: sum.splits)
  from run_first_terminal[where python=python and scriptArgs=scriptArgs, OF assms(1,2) this] z
  show ?thesis by simp
qed

lemmas json_eval =
  parse_json_def js_def is_json_ws_def is_digit_def startsWith_def lex_number_def lex_int_def
  lex_frac_def lex_exp_def lex_sign_def mk_number_def digit_val_def decimal_value_def
  obj_put_def array_index_def hex4_def hex_val_def simple_escape_def
  parse_elements.simps parse_members.simps

lemmas number_eval =
  canonical_def normalise_def strip_zeros_def round_binary64_def round_at_def round_ratio_def
  round_up_def pack_def floor_log2_def scaled_le_def digits_value_def bitlen.simps
  nat_digits.simps decimal_exponent_def candidate_def candidate_ratio_def pick_def
  search_ratio_def int_length_def

lemmas string_eval = trim_def is_js_whitespace_def

lemma parsed_text_first:
  "split 0x0A out = ls1 @ l # ls2 \<Longrightarrow> list_all (\<lambda>p. \<not> starts_with_brace p) ls1 \<Longrightarrow>
   starts_with_brace l \<Longrightarrow> parsed_text out = trim l"
  unfolding parsed_text_def starts_with_brace_def
  by (simp add: find_json_line_first startsWith_nonempty)

lemma parsed_text_none:
  "list_all (\<lambda>p. \<not> starts_with_brace p) (split 0x0A out) \<Longrightarrow> parsed_text out = trim out"
  unfolding parsed_text_def starts_with_brace_def
  by (simp add: find_json_line_none)

lemma run_exit_zero_parsed:
  assumes "python (js ''web_integration.py'' # scriptArgs) = ChildProcess (pre @ Close (Some 0) # post)"
    and "list_all is_data pre"
  shows "promise (runPythonScript emsg python scriptArgs) =
   (case JSON_parse emsg (parsed_text (stdout_of pre)) of
      Inr v \<Rightarrow> Resolved v
    | Inl m \<Rightarrow> Rejected (parse_failure m))"
  unfolding parsed_text_def parse_failure_def
  by (rule run_exit_zero[where python=python and scriptArgs=scriptArgs, OF assms])

lemma console_dispatch: "set (console b) \<subseteq> set (console (dispatch emsg b e))"
  by (cases e)
     (auto simp: on_close_def on_error_def resolve_def reject_def console_error_def Let_def
           split: sum.splits)

lemma console_foldl: "set (console b) \<subseteq> set (console (foldl (dispatch emsg) b evs))"
proof (induction evs arbitrary: b)
  case Nil
  then show ?case by simp
next
  case (Cons e evs)
  have "set (console b) \<subseteq> set (console (dispatch emsg b e))" by (rule console_dispatch)
  also have "\<dots> \<subseteq> set (console (foldl (dispatch emsg) (dispatch emsg b e) evs))"
    by (rule Cons.IH)
  finally show ?case by simp
qed

lemma on_close_zero_console:
  "JSON_parse emsg (parsed_text (dataString b)) = Inl m \<Longrightarrow>
   LogRawOutput (dataString b) \<in> set (console (on_close emsg (Some 0) b))"
  by (auto simp: on_close_def parsed_text_def resolve_def reject_def console_error_def Let_def
      split: if_splits)


section \<open>Whitespace around a JSON text\<close>

text \<open>
  \<^verbatim>\<open>trim\<close> removes more than JSON whitespace, but on a text that lexes it removes
  nothing else: the tokens of the trimmed text are the tokens of the text.
\<close>

lemma json_ws_is_js_ws: "is_json_ws c \<Longrightarrow> is_js_whitespace c"
  by (auto simp: is_json_ws_def is_js_whitespace_def)

lemma lex_leading_ws: "list_all is_json_ws w \<Longrightarrow> lex (w @ s) = lex s"
  by (induction w) simp_all

lemma lex_ws_only: "list_all is_json_ws w \<Longrightarrow> lex w = Some []"
  using lex_leading_ws[of w "[]"] by simp

lemma takeWhile_append_stop:
  "w = [] \<or> \<not> P (hd w) \<Longrightarrow> takeWhile P (s @ w) = takeWhile P s"
  by (induction s) (auto simp: takeWhile_eq_Nil_iff)

lemma dropWhile_append_stop:
  "w = [] \<or> \<not> P (hd w) \<Longrightarrow> dropWhile P (s @ w) = dropWhile P s @ w"
  by (induction s) (auto simp: dropWhile_eq_self_iff)

lemma ws_not_digit: "is_json_ws c \<Longrightarrow> \<not> is_digit c"
  by (auto simp: is_json_ws_def is_digit_def)

lemma ws_stop_digit: "list_all is_json_ws w \<Longrightarrow> w = [] \<or> \<not> is_digit (hd w)"
  by (cases w) (auto simp: ws_not_digit)

lemma lex_string_ws_only: "list_all is_json_ws w \<Longrightarrow> lex_string w = None"
  by (induction w) (auto simp: is_json_ws_def)

lemma hex_val_ws: "is_json_ws c \<Longrightarrow> hex_val c = None"
  by (auto simp: is_json_ws_def hex_val_def)

lemma hex4_ws:
  "is_json_ws a \<or> is_json_ws b \<or> is_json_ws c \<or> is_json_ws d \<Longrightarrow> hex4 a b c d = None"
  by (auto simp: hex4_def hex_val_ws split: option.splits)

lemma simple_escape_ws: "is_json_ws c \<Longrightarrow> simple_escape c = None"
  by (auto simp: is_json_ws_def simple_escape_def)

lemma ws_not_u: "is_json_ws c \<Longrightarrow> c \<noteq> 0x75"
  by (auto simp: is_json_ws_def)

lemma lex_string_append_ws:
  "list_all is_json_ws w \<Longrightarrow>
   lex_string (s @ w) = map_option (\<lambda>(x, r). (x, r @ w)) (lex_string s)"
proof (induction s rule: lex_string.induct)
  case 1
  then show ?case by (simp add: lex_string_ws_only)
next
  case (2 c cs)
  show ?case
  proof (cases "c = 0x22")
    case True
    then show ?thesis by simp
  next
    case nq: False
    show ?thesis
    proof (cases "c = 0x5C")
      case bs: True
      show ?thesis
      proof (cases cs)
        case Nil
        with bs 2(4) show ?thesis
          by (cases w) (auto simp: simple_escape_ws ws_not_u)
      next
        case (Cons e es)
        show ?thesis
        proof (cases "e = 0x75")
          case u: True
          show ?thesis
          proof (cases "\<exists>h1 h2 h3 h4 r. es = h1 # h2 # h3 # h4 # r")
            case True
            then obtain h1 h2 h3 h4 r where es: "es = h1 # h2 # h3 # h4 # r" by blast
            with 2 bs nq Cons u show ?thesis
              by (auto split: option.splits simp: option.map_comp comp_def case_prod_beta)
          next
            case False
            then have short: "lex_string (c # cs) = None"
              using bs nq Cons u by (auto split: list.splits)
            have "lex_string (c # e # es @ w) = None"
              using False bs nq u 2(4)
              by (auto split: list.splits option.splits simp: append_eq_Cons_conv hex4_ws)
            with short Cons show ?thesis by simp
          qed
        next
          case nu: False
          with 2 bs nq Cons show ?thesis
            by (auto split: option.splits simp: option.map_comp comp_def case_prod_beta)
        qed
      qed
    next
      case False
      with 2 nq show ?thesis
        by (auto split: option.splits simp: option.map_comp comp_def case_prod_beta)
    qed
  qed
qed


lemma lex_int_append_ws:
  "list_all is_json_ws w \<Longrightarrow>
   lex_int (s @ w) = map_option (\<lambda>(x, r). (x, r @ w)) (lex_int s)"
proof (cases s)
  case Nil
  assume "list_all is_json_ws w"
  with Nil show ?thesis
    by (cases w) (auto simp: lex_int_def is_json_ws_def is_digit_def)
next
  case (Cons c cs)
  assume "list_all is_json_ws w"
  then have "w = [] \<or> \<not> is_digit (hd w)" by (rule ws_stop_digit)
  with Cons show ?thesis
    using takeWhile_append_stop[of w is_digit cs] dropWhile_append_stop[of w is_digit cs]
    by (auto simp: lex_int_def)
qed

lemma lex_frac_append_ws:
  "list_all is_json_ws w \<Longrightarrow>
   lex_frac (s @ w) = map_option (\<lambda>(x, r). (x, r @ w)) (lex_frac s)"
proof (cases s)
  case Nil
  assume "list_all is_json_ws w"
  with Nil show ?thesis
    by (cases w) (auto simp: lex_frac_def is_json_ws_def)
next
  case (Cons c cs)
  assume "list_all is_json_ws w"
  then have "w = [] \<or> \<not> is_digit (hd w)" by (rule ws_stop_digit)
  with Cons show ?thesis
    using takeWhile_append_stop[of w is_digit cs] dropWhile_append_stop[of w is_digit cs]
    by (auto simp: lex_frac_def)
qed

lemma lex_sign_append_ws:
  "list_all is_json_ws w \<Longrightarrow> lex_sign (s @ w) = (fst (lex_sign s), snd (lex_sign s) @ w)"
  by (cases s; cases w) (auto simp: lex_sign_def is_json_ws_def)

lemma lex_exp_append_ws:
  "list_all is_json_ws w \<Longrightarrow>
   lex_exp (s @ w) = map_option (\<lambda>(x, r). (x, r @ w)) (lex_exp s)"
proof (cases s)
  case Nil
  assume "list_all is_json_ws w"
  with Nil show ?thesis
    by (cases w) (auto simp: lex_exp_def is_json_ws_def)
next
  case (Cons c cs)
  assume w: "list_all is_json_ws w"
  then have stop: "w = [] \<or> \<not> is_digit (hd w)" by (rule ws_stop_digit)
  show ?thesis
    using Cons lex_sign_append_ws[OF w, of cs]
      takeWhile_append_stop[where P=is_digit and w=w and s="snd (lex_sign cs)", OF stop]
      dropWhile_append_stop[where P=is_digit and w=w and s="snd (lex_sign cs)", OF stop]
    by (auto simp: lex_exp_def split: prod.splits)
qed

lemma lex_number_append_ws:
  assumes w: "list_all is_json_ws w"
  shows "lex_number (s @ w) = map_option (\<lambda>(x, r). (x, r @ w)) (lex_number s)"
proof -
  have sign: "(case s @ w of [] \<Rightarrow> (False, s @ w)
                | c # r \<Rightarrow> if c = 0x2D then (True, r) else (False, s @ w)) =
        (case (case s of [] \<Rightarrow> (False, s) | c # r \<Rightarrow> if c = 0x2D then (True, r) else (False, s)) of
           (neg, s1) \<Rightarrow> (neg, s1 @ w))"
    using w by (cases s; cases w) (auto simp: is_json_ws_def)
  show ?thesis
    unfolding lex_number_def sign
    by (auto simp: lex_int_append_ws[OF w] lex_frac_append_ws[OF w] lex_exp_append_ws[OF w]
        split: prod.splits option.splits list.splits)
qed

lemma startsWith_append_ws:
  "list_all is_json_ws w \<Longrightarrow> list_all (\<lambda>c. \<not> is_json_ws c) p \<Longrightarrow>
   startsWith (s @ w) p \<longleftrightarrow> startsWith s p"
proof (induction p arbitrary: s)
  case Nil
  then show ?case by (simp add: startsWith_def)
next
  case (Cons a p)
  show ?case
  proof (cases s)
    case Nil
    with Cons.prems show ?thesis by (cases w) (auto simp: startsWith_def)
  next
    case (Cons b s')
    with Cons.IH[of s'] Cons.prems show ?thesis by (auto simp: startsWith_def)
  qed
qed

lemma startsWith_length: "startsWith s p \<Longrightarrow> length p \<le> length s"
  unfolding startsWith_def by (drule arg_cong[where f=length]) simp

lemma lex_trailing_ws:
  assumes w: "list_all is_json_ws w"
  shows "lex (s @ w) = lex s"
proof (induction s rule: lex.induct)
  case 1
  show ?case using w by (simp add: lex_ws_only)
next
  case ih: (2 c cs)
  have lit: "\<And>p. list_all (\<lambda>c. \<not> is_json_ws c) p \<Longrightarrow>
      startsWith (c # cs @ w) p \<longleftrightarrow> startsWith (c # cs) p"
    using startsWith_append_ws[OF w, of _ "c # cs"] by simp
  have t: "startsWith (c # cs @ w) (js ''true'') \<longleftrightarrow> startsWith (c # cs) (js ''true'')"
    by (rule lit) (simp add: js_def is_json_ws_def)
  have f: "startsWith (c # cs @ w) (js ''false'') \<longleftrightarrow> startsWith (c # cs) (js ''false'')"
    by (rule lit) (simp add: js_def is_json_ws_def)
  have n: "startsWith (c # cs @ w) (js ''null'') \<longleftrightarrow> startsWith (c # cs) (js ''null'')"
    by (rule lit) (simp add: js_def is_json_ws_def)
  have d3: "startsWith (c # cs) (js ''true'') \<Longrightarrow> drop 3 (cs @ w) = drop 3 cs @ w"
    using startsWith_length[of "c # cs" "js ''true''"] by (simp add: js_def)
  have d4: "startsWith (c # cs) (js ''false'') \<Longrightarrow> drop 4 (cs @ w) = drop 4 cs @ w"
    using startsWith_length[of "c # cs" "js ''false''"] by (simp add: js_def)
  have d3n: "startsWith (c # cs) (js ''null'') \<Longrightarrow> drop 3 (cs @ w) = drop 3 cs @ w"
    using startsWith_length[of "c # cs" "js ''null''"] by (simp add: js_def)
  have num: "lex_number (c # cs @ w) = map_option (\<lambda>(x, r). (x, r @ w)) (lex_number (c # cs))"
    using lex_number_append_ws[OF w, of "c # cs"] by simp
  show ?case
  proof (cases "is_json_ws c")
    case True
    with ih(1) show ?thesis by simp
  next
    case nws: False
    show ?thesis
    proof (cases "c = 0x7B \<or> c = 0x7D \<or> c = 0x5B \<or> c = 0x5D \<or> c = 0x3A \<or> c = 0x2C")
      case True
      have step: "lex (cs @ w) = lex cs"
      proof -
        consider "c = 0x7B" | "c \<noteq> 0x7B" "c = 0x7D" | "c \<noteq> 0x7B" "c \<noteq> 0x7D" "c = 0x5B"
          | "c \<noteq> 0x7B" "c \<noteq> 0x7D" "c \<noteq> 0x5B" "c = 0x5D"
          | "c \<noteq> 0x7B" "c \<noteq> 0x7D" "c \<noteq> 0x5B" "c \<noteq> 0x5D" "c = 0x3A"
          | "c \<noteq> 0x7B" "c \<noteq> 0x7D" "c \<noteq> 0x5B" "c \<noteq> 0x5D" "c \<noteq> 0x3A" "c = 0x2C"
          using True by fastforce
        then show ?thesis
        proof cases
          case 1
          then show ?thesis by (rule ih(2)[OF nws])
        next
          case 2
          then show ?thesis by (rule ih(3)[OF nws])
        next
          case 3
          then show ?thesis by (rule ih(4)[OF nws])
        next
          case 4
          then show ?thesis by (rule ih(5)[OF nws])
        next
          case 5
          then show ?thesis by (rule ih(6)[OF nws])
        next
          case 6
          then show ?thesis by (rule ih(7)[OF nws])
        qed
      qed
      have "lex (c # cs @ w) = (if c = 0x7B then map_option ((#) TLBrace) (lex (cs @ w))
         else if c = 0x7D then map_option ((#) TRBrace) (lex (cs @ w))
         else if c = 0x5B then map_option ((#) TLBracket) (lex (cs @ w))
         else if c = 0x5D then map_option ((#) TRBracket) (lex (cs @ w))
         else if c = 0x3A then map_option ((#) TColon) (lex (cs @ w))
         else map_option ((#) TComma) (lex (cs @ w)))"
        using nws True by (subst lex.simps) auto
      moreover have "lex (c # cs) = (if c = 0x7B then map_option ((#) TLBrace) (lex cs)
         else if c = 0x7D then map_option ((#) TRBrace) (lex cs)
         else if c = 0x5B then map_option ((#) TLBracket) (lex cs)
         else if c = 0x5D then map_option ((#) TRBracket) (lex cs)
         else if c = 0x3A then map_option ((#) TColon) (lex cs)
         else map_option ((#) TComma) (lex cs))"
        using nws True by (subst lex.simps) auto
      ultimately show ?thesis using step by simp
    next
      case ns: False
      then have n1: "c \<noteq> 0x7B" "c \<noteq> 0x7D" "c \<noteq> 0x5B" "c \<noteq> 0x5D" "c \<noteq> 0x3A" "c \<noteq> 0x2C"
        by auto
      show ?thesis
      proof (cases "c = 0x22")
        case str: True
        show ?thesis
        proof (cases "lex_string cs")
          case None
          with str nws show ?thesis by (simp add: lex_string_append_ws[OF w])
        next
          case (Some a)
          obtain x r where a: "a = (x, r)" by (cases a)
          have "lex (r @ w) = lex r"
            by (rule ih(8)[OF nws n1 str Some]) (simp add: a)
          with str nws Some a show ?thesis by (simp add: lex_string_append_ws[OF w])
        qed
      next
        case nstr: False
        show ?thesis
        proof (cases "c = 0x2D \<or> is_digit c")
          case isnum: True
          show ?thesis
          proof (cases "lex_number (c # cs)")
            case None
            with nws n1 nstr isnum show ?thesis by (simp add: num)
          next
            case (Some a)
            obtain x r where a: "a = (x, r)" by (cases a)
            have "lex (r @ w) = lex r"
              by (rule ih(9)[OF nws n1 nstr isnum Some]) (simp add: a)
            with nws n1 nstr isnum Some a show ?thesis by (simp add: num)
          qed
        next
          case nnum: False
          show ?thesis
          proof (cases "startsWith (c # cs) (js ''true'')")
            case True
            have "lex (drop 3 cs @ w) = lex (drop 3 cs)"
              by (rule ih(10)[OF nws n1 nstr nnum True])
            with nws n1 nstr nnum True t d3 show ?thesis by simp
          next
            case nt: False
            show ?thesis
            proof (cases "startsWith (c # cs) (js ''false'')")
              case True
              have "lex (drop 4 cs @ w) = lex (drop 4 cs)"
                by (rule ih(11)[OF nws n1 nstr nnum nt True])
              with nws n1 nstr nnum nt True t f d4 show ?thesis by simp
            next
              case nf: False
              show ?thesis
              proof (cases "startsWith (c # cs) (js ''null'')")
                case True
                have "lex (drop 3 cs @ w) = lex (drop 3 cs)"
                  by (rule ih(12)[OF nws n1 nstr nnum nt nf True])
                with nws n1 nstr nnum nt nf True t f n d3n show ?thesis by simp
              next
                case False
                with nws n1 nstr nnum nt nf t f n show ?thesis by simp
              qed
            qed
          qed
        qed
      qed
    qed
  qed
qed

lemma js_ws_not_token_start:
  assumes "is_js_whitespace c"
  shows "c \<noteq> 0x7B" "c \<noteq> 0x7D" "c \<noteq> 0x5B" "c \<noteq> 0x5D" "c \<noteq> 0x3A" "c \<noteq> 0x2C" "c \<noteq> 0x22"
    "c \<noteq> 0x2D" "\<not> is_digit c" "c \<noteq> 0x74" "c \<noteq> 0x66" "c \<noteq> 0x6E" "c \<noteq> 0x65" "c \<noteq> 0x6C"
  using assms by (auto simp: is_js_whitespace_def is_digit_def word_le_nat_alt)

lemma lex_nonws_head:
  assumes "lex (c # cs) = Some ts" and "\<not> is_json_ws c"
  shows "\<not> is_js_whitespace c"
proof
  assume W: "is_js_whitespace c"
  note n = js_ws_not_token_start[OF W]
  have "lex (c # cs) = None"
    using assms(2) n by (simp add: startsWith_def js_def)
  with assms(1) show False by simp
qed

lemma dropWhile_js_ws_lex:
  "lex s = Some ts \<Longrightarrow> dropWhile is_js_whitespace s = dropWhile is_json_ws s"
proof (induction s)
  case Nil
  then show ?case by simp
next
  case (Cons c cs)
  show ?case
  proof (cases "is_json_ws c")
    case True
    with Cons show ?thesis by (simp add: json_ws_is_js_ws)
  next
    case False
    with lex_nonws_head[OF Cons.prems] show ?thesis by simp
  qed
qed

lemma suffix_after_token:
  assumes "p @ r = a @ w" and "p \<noteq> []" and "\<not> is_js_whitespace (last p)"
    and "list_all is_js_whitespace w"
  shows "\<exists>a'. r = a' @ w"
proof -
  from assms(1) consider us where "a = p @ us" "us @ w = r" | us where "a @ us = p" "w = us @ r"
    by (auto simp: append_eq_append_conv2)
  then show ?thesis
  proof cases
    case 1
    then show ?thesis by auto
  next
    case 2
    show ?thesis
    proof (cases "us = []")
      case True
      with 2 show ?thesis by auto
    next
      case False
      with 2 have "last p = last us" by auto
      moreover from False 2 assms(4) have "is_js_whitespace (last us)"
        by (auto simp: list_all_iff)
      ultimately show ?thesis using assms(3) by simp
    qed
  qed
qed

lemma lex_string_consumed:
  "lex_string s = Some (x, r) \<Longrightarrow> \<exists>p. s = p @ r \<and> p \<noteq> [] \<and> last p = 0x22"
proof (induction s arbitrary: x r rule: lex_string.induct)
  case 1
  then show ?case by simp
next
  case ih: (2 c cs)
  show ?case
  proof (cases "c = 0x22")
    case True
    with ih.prems have "c # cs = [c] @ r \<and> [c] \<noteq> [] \<and> last [c] = 0x22" by simp
    then show ?thesis by blast
  next
    case nq: False
    show ?thesis
    proof (cases "c = 0x5C")
      case bs: True
      from ih.prems nq bs obtain e es where cs: "cs = e # es"
        by (cases cs) auto
      show ?thesis
      proof (cases "e = 0x75")
        case u: True
        from ih.prems nq bs cs u obtain h1 h2 h3 h4 r' uu x' where
          es: "es = h1 # h2 # h3 # h4 # r'" and h: "hex4 h1 h2 h3 h4 = Some uu"
          and l: "lex_string r' = Some (x', r)"
          by (auto split: list.splits option.splits)
        from ih.IH(1)[OF nq bs cs u es refl refl refl h l]
        obtain p where "r' = p @ r" "p \<noteq> []" "last p = 0x22" by blast
        then have "c # cs = (c # e # h1 # h2 # h3 # h4 # p) @ r \<and>
            c # e # h1 # h2 # h3 # h4 # p \<noteq> [] \<and> last (c # e # h1 # h2 # h3 # h4 # p) = 0x22"
          using cs es by simp
        then show ?thesis by blast
      next
        case nu: False
        from ih.prems nq bs cs nu obtain y x' where
          se: "simple_escape e = Some y" and l: "lex_string es = Some (x', r)"
          by (auto split: option.splits)
        from ih.IH(2)[OF nq bs cs nu se l]
        obtain p where "es = p @ r" "p \<noteq> []" "last p = 0x22" by blast
        then have "c # cs = (c # e # p) @ r \<and> c # e # p \<noteq> [] \<and> last (c # e # p) = 0x22"
          using cs by simp
        then show ?thesis by blast
      qed
    next
      case nbs: False
      from ih.prems nq nbs obtain x' where
        ctl: "\<not> c < 0x20" and l: "lex_string cs = Some (x', r)"
        by (auto split: if_splits)
      from ih.IH(3)[OF nq nbs ctl l]
      obtain p where "cs = p @ r" "p \<noteq> []" "last p = 0x22" by blast
      then have "c # cs = (c # p) @ r \<and> c # p \<noteq> [] \<and> last (c # p) = 0x22" by simp
      then show ?thesis by blast
    qed
  qed
qed

lemma takeWhile_last: "takeWhile P s \<noteq> [] \<Longrightarrow> P (last (takeWhile P s))"
  by (metis last_in_set set_takeWhileD)

lemma lex_int_consumed:
  "lex_int s = Some (x, r) \<Longrightarrow> s = x @ r \<and> x \<noteq> [] \<and> is_digit (last x)"
proof (cases s)
  case Nil
  assume "lex_int s = Some (x, r)"
  with Nil show ?thesis by (simp add: lex_int_def)
next
  case (Cons c cs)
  assume l: "lex_int s = Some (x, r)"
  show ?thesis
  proof (cases "c = 0x30")
    case True
    with l Cons show ?thesis by (auto simp: lex_int_def is_digit_def)
  next
    case False
    with l Cons have d: "is_digit c" and x: "x = takeWhile is_digit s" "r = dropWhile is_digit s"
      by (auto simp: lex_int_def split: if_splits)
    from d Cons have "takeWhile is_digit s \<noteq> []" by simp
    with x takeWhile_last[of is_digit s] show ?thesis by simp
  qed
qed

lemma lex_frac_consumed:
  "lex_frac s = Some (x, r) \<Longrightarrow>
   r = s \<or> (\<exists>q. s = q @ r \<and> q \<noteq> [] \<and> is_digit (last q))"
proof (cases s)
  case Nil
  assume "lex_frac s = Some (x, r)"
  with Nil show ?thesis by (simp add: lex_frac_def)
next
  case (Cons c cs)
  assume l: "lex_frac s = Some (x, r)"
  show ?thesis
  proof (cases "c = 0x2E")
    case True
    with l Cons have x: "x = takeWhile is_digit cs" "r = dropWhile is_digit cs" "x \<noteq> []"
      by (auto simp: lex_frac_def split: if_splits)
    then have "s = (c # x) @ r \<and> c # x \<noteq> [] \<and> is_digit (last (c # x))"
      using Cons takeWhile_last[of is_digit cs] by simp
    then show ?thesis by blast
  next
    case False
    with l Cons show ?thesis by (simp add: lex_frac_def)
  qed
qed

lemma lex_sign_consumed: "lex_sign s = (sg, r) \<Longrightarrow> \<exists>q. s = q @ r"
  by (cases s) (auto simp: lex_sign_def split: if_splits)

lemma lex_exp_consumed:
  "lex_exp s = Some (e, r) \<Longrightarrow>
   r = s \<or> (\<exists>q. s = q @ r \<and> q \<noteq> [] \<and> is_digit (last q))"
proof (cases s)
  case Nil
  assume "lex_exp s = Some (e, r)"
  with Nil show ?thesis by (simp add: lex_exp_def)
next
  case (Cons c cs)
  assume l: "lex_exp s = Some (e, r)"
  show ?thesis
  proof (cases "c = 0x65 \<or> c = 0x45")
    case True
    obtain sg r1 where sg: "lex_sign cs = (sg, r1)" by (cases "lex_sign cs")
    with l Cons True have x: "r = dropWhile is_digit r1" "takeWhile is_digit r1 \<noteq> []"
      by (auto simp: lex_exp_def split: if_splits)
    from lex_sign_consumed[OF sg] obtain q where q: "cs = q @ r1" by blast
    let ?p = "c # q @ takeWhile is_digit r1"
    have "s = ?p @ r \<and> ?p \<noteq> [] \<and> is_digit (last ?p)"
      using Cons q x takeWhile_last[of is_digit r1] by simp
    then show ?thesis by blast
  next
    case False
    with l Cons show ?thesis by (auto simp: lex_exp_def)
  qed
qed

lemma lex_number_consumed:
  assumes "lex_number s = Some (n, r)"
  shows "\<exists>p. s = p @ r \<and> p \<noteq> [] \<and> is_digit (last p)"
proof -
  obtain neg s1 where s1: "(case s of [] \<Rightarrow> (False, s)
      | c # r \<Rightarrow> if c = 0x2D then (True, r) else (False, s)) = (neg, s1)"
    by (cases "(case s of [] \<Rightarrow> (False, s) | c # r \<Rightarrow> if c = 0x2D then (True, r) else (False, s))")
  then obtain m where m: "s = m @ s1"
    by (cases s) (auto split: if_splits)
  from assms s1 obtain ip s2 fp s3 ex where
    i: "lex_int s1 = Some (ip, s2)" and f: "lex_frac s2 = Some (fp, s3)"
    and e: "lex_exp s3 = Some (ex, r)"
    by (auto simp: lex_number_def split: option.splits)
  from lex_int_consumed[OF i] have ii: "s1 = ip @ s2" "ip \<noteq> []" "is_digit (last ip)" by auto
  from lex_frac_consumed[OF f] obtain f' where
    ff: "s2 = f' @ s3" "f' = [] \<or> is_digit (last f')" by auto
  from lex_exp_consumed[OF e] obtain e' where
    ee: "s3 = e' @ r" "e' = [] \<or> is_digit (last e')" by auto
  let ?p = "m @ ip @ f' @ e'"
  have "s = ?p @ r" using m ii ff ee by simp
  moreover have "?p \<noteq> []" using ii by simp
  moreover have "is_digit (last ?p)" using ii ff ee by (cases "e' = []"; cases "f' = []") auto
  ultimately show ?thesis by blast
qed

lemma startsWith_consumed: "startsWith s p \<Longrightarrow> s = p @ drop (length p) s"
  unfolding startsWith_def by (metis append_take_drop_id)

lemma js_ws_not_digit: "is_digit c \<Longrightarrow> \<not> is_js_whitespace c"
  using js_ws_not_token_start(9) by blast

lemma lex_trailing_js_ws:
  "lex s = Some ts \<Longrightarrow> s = a @ w \<Longrightarrow> list_all is_js_whitespace w \<Longrightarrow> list_all is_json_ws w"
proof (induction s arbitrary: ts a w rule: lex.induct)
  case 1
  then show ?case by simp
next
  case ih: (2 c cs)
  show ?case
  proof (cases a)
    case Nil
    with ih.prems have w: "w = c # cs" by simp
    with ih.prems(3) have W: "is_js_whitespace c" by simp
    with lex_nonws_head[OF ih.prems(1)] have j: "is_json_ws c" by blast
    with ih.prems(1) have "lex cs = Some ts" by simp
    from ih.IH(1)[OF j this, of "[]" cs] ih.prems(3) w have "list_all is_json_ws cs" by simp
    with j w show ?thesis by simp
  next
    case (Cons a0 a')
    with ih.prems have cs: "cs = a' @ w" by simp
    show ?thesis
    proof (cases "is_json_ws c")
      case True
      with ih.prems(1) have "lex cs = Some ts" by simp
      from ih.IH(1)[OF True this cs ih.prems(3)] show ?thesis .
    next
      case nws: False
      show ?thesis
      proof (cases "c = 0x7B \<or> c = 0x7D \<or> c = 0x5B \<or> c = 0x5D \<or> c = 0x3A \<or> c = 0x2C")
        case True
        with ih.prems(1) nws obtain ts' where l: "lex cs = Some ts'"
          by (auto split: if_splits)
        consider "c = 0x7B" | "c \<noteq> 0x7B" "c = 0x7D" | "c \<noteq> 0x7B" "c \<noteq> 0x7D" "c = 0x5B"
          | "c \<noteq> 0x7B" "c \<noteq> 0x7D" "c \<noteq> 0x5B" "c = 0x5D"
          | "c \<noteq> 0x7B" "c \<noteq> 0x7D" "c \<noteq> 0x5B" "c \<noteq> 0x5D" "c = 0x3A"
          | "c \<noteq> 0x7B" "c \<noteq> 0x7D" "c \<noteq> 0x5B" "c \<noteq> 0x5D" "c \<noteq> 0x3A" "c = 0x2C"
          using True by fastforce
        then show ?thesis
        proof cases
          case 1
          from ih.IH(2)[OF nws 1 l cs ih.prems(3)] show ?thesis .
        next
          case 2
          from ih.IH(3)[OF nws 2 l cs ih.prems(3)] show ?thesis .
        next
          case 3
          from ih.IH(4)[OF nws 3 l cs ih.prems(3)] show ?thesis .
        next
          case 4
          from ih.IH(5)[OF nws 4 l cs ih.prems(3)] show ?thesis .
        next
          case 5
          from ih.IH(6)[OF nws 5 l cs ih.prems(3)] show ?thesis .
        next
          case 6
          from ih.IH(7)[OF nws 6 l cs ih.prems(3)] show ?thesis .
        qed
      next
        case ns: False
        then have n1: "c \<noteq> 0x7B" "c \<noteq> 0x7D" "c \<noteq> 0x5B" "c \<noteq> 0x5D" "c \<noteq> 0x3A" "c \<noteq> 0x2C"
          by auto
        show ?thesis
        proof (cases "c = 0x22")
          case str: True
          from ih.prems(1) nws n1 str obtain x r ts' where
            ls: "lex_string cs = Some (x, r)" and l: "lex r = Some ts'"
            by (auto split: option.splits)
          from lex_string_consumed[OF ls] obtain p where
            p: "cs = p @ r" "p \<noteq> []" "last p = 0x22" by blast
          have "\<not> is_js_whitespace (last p)"
            using p(3) js_ws_not_token_start(7)[of "last p"] by auto
          from suffix_after_token[OF _ p(2) this ih.prems(3), of r a'] p(1) cs
          obtain a'' where "r = a'' @ w" by auto
          from ih.IH(8)[OF nws n1 str ls refl l this ih.prems(3)] show ?thesis .
        next
          case nstr: False
          show ?thesis
          proof (cases "c = 0x2D \<or> is_digit c")
            case isnum: True
            from ih.prems(1) nws n1 nstr isnum obtain x r ts' where
              ls: "lex_number (c # cs) = Some (x, r)" and l: "lex r = Some ts'"
              by (auto split: option.splits)
            from lex_number_consumed[OF ls] obtain p where
              p: "c # cs = p @ r" "p \<noteq> []" "is_digit (last p)" by blast
            have "\<not> is_js_whitespace (last p)" using p(3) by (rule js_ws_not_digit)
            from suffix_after_token[OF _ p(2) this ih.prems(3), of r "c # a'"] p(1) cs
            obtain a'' where "r = a'' @ w" by auto
            from ih.IH(9)[OF nws n1 nstr isnum ls refl l this ih.prems(3)] show ?thesis .
          next
            case nnum: False
            have lit: "\<exists>a''. drop n cs = a'' @ w"
              if sw: "startsWith (c # cs) p" and np: "length p = Suc n"
                and lp: "\<not> is_js_whitespace (last p)" for p n
            proof -
              have "p @ drop (length p) (c # cs) = (c # a') @ w"
                using startsWith_consumed[OF sw] cs by simp
              moreover have "p \<noteq> []" using np by auto
              ultimately show ?thesis
                using suffix_after_token[OF _ _ lp ih.prems(3), of "drop (length p) (c # cs)" "c # a'"]
                  np by simp
            qed
            show ?thesis
            proof (cases "startsWith (c # cs) (js ''true'')")
              case True
              with ih.prems(1) nws n1 nstr nnum obtain ts' where l: "lex (drop 3 cs) = Some ts'"
                by (auto split: if_splits)
              have "\<exists>a''. drop 3 cs = a'' @ w"
                by (rule lit[OF True]) (simp_all add: js_def is_js_whitespace_def)
              then obtain a'' where "drop 3 cs = a'' @ w" by blast
              from ih.IH(10)[OF nws n1 nstr nnum True l this ih.prems(3)] show ?thesis .
            next
              case nt: False
              show ?thesis
              proof (cases "startsWith (c # cs) (js ''false'')")
                case True
                with ih.prems(1) nws n1 nstr nnum nt obtain ts' where
                  l: "lex (drop 4 cs) = Some ts'"
                  by (auto split: if_splits)
                have "\<exists>a''. drop 4 cs = a'' @ w"
                by (rule lit[OF True]) (simp_all add: js_def is_js_whitespace_def)
              then obtain a'' where "drop 4 cs = a'' @ w" by blast
                from ih.IH(11)[OF nws n1 nstr nnum nt True l this ih.prems(3)] show ?thesis .
              next
                case nf: False
                show ?thesis
                proof (cases "startsWith (c # cs) (js ''null'')")
                  case True
                  with ih.prems(1) nws n1 nstr nnum nt nf obtain ts' where
                    l: "lex (drop 3 cs) = Some ts'"
                    by (auto split: if_splits)
                  have "\<exists>a''. drop 3 cs = a'' @ w"
                by (rule lit[OF True]) (simp_all add: js_def is_js_whitespace_def)
              then obtain a'' where "drop 3 cs = a'' @ w" by blast
                  from ih.IH(12)[OF nws n1 nstr nnum nt nf True l this ih.prems(3)]
                  show ?thesis .
                next
                  case False
                  with ih.prems(1) nws n1 nstr nnum nt nf show ?thesis by simp
                qed
              qed
            qed
          qed
        qed
      qed
    qed
  qed
qed

lemma lex_trim:
  assumes "lex s = Some ts"
  shows "lex (trim s) = Some ts"
proof -
  let ?s1 = "dropWhile is_js_whitespace s"
  have s1: "?s1 = dropWhile is_json_ws s" by (rule dropWhile_js_ws_lex[OF assms])
  have "list_all is_json_ws (takeWhile is_json_ws s)"
    by (auto simp: list_all_iff dest: set_takeWhileD)
  then have "lex (takeWhile is_json_ws s @ dropWhile is_json_ws s) = lex (dropWhile is_json_ws s)"
    by (rule lex_leading_ws)
  then have "lex (dropWhile is_json_ws s) = Some ts"
    using assms by (simp only: takeWhile_dropWhile_id)
  then have l1: "lex ?s1 = Some ts" by (simp only: s1)
  let ?core = "rev (dropWhile is_js_whitespace (rev ?s1))"
  let ?w = "rev (takeWhile is_js_whitespace (rev ?s1))"
  have "rev (rev ?s1) =
      rev (takeWhile is_js_whitespace (rev ?s1) @ dropWhile is_js_whitespace (rev ?s1))"
    by (simp only: takeWhile_dropWhile_id)
  then have parts: "?s1 = ?core @ ?w" by (simp only: rev_rev_ident rev_append)
  have W: "list_all is_js_whitespace ?w"
    by (auto simp: list_all_iff dest: set_takeWhileD)
  have "list_all is_json_ws ?w" by (rule lex_trailing_js_ws[OF l1 parts W])
  then have "lex (?core @ ?w) = lex ?core" by (rule lex_trailing_ws)
  moreover have "lex (?core @ ?w) = lex ?s1" by (rule arg_cong[where f=lex, OF parts[symmetric]])
  ultimately have "lex ?core = Some ts" using l1 by (simp only:)
  then show ?thesis by (simp only: trim_def)
qed

lemma parse_json_trim: "parse_json s = Some v \<Longrightarrow> parse_json (trim s) = Some v"
  by (auto simp: parse_json_def lex_trim split: option.splits)

lemma trim_head:
  "trim s = c # cs \<Longrightarrow> \<not> is_js_whitespace c"
proof -
  assume t: "trim s = c # cs"
  let ?d = "dropWhile is_js_whitespace s"
  have "?d \<noteq> []"
  proof
    assume "?d = []"
    then have "trim s = []" by (simp only: trim_def rev.simps dropWhile.simps)
    with t show False by simp
  qed
  then obtain h d' where d: "?d = h # d'" by (cases ?d) auto
  then have h: "\<not> is_js_whitespace h" by (metis hd_dropWhile list.sel(1) list.distinct(1))
  then have "rev (dropWhile is_js_whitespace (rev (h # d'))) =
      h # rev (dropWhile is_js_whitespace (rev d'))"
    by (simp add: dropWhile_append)
  with t d have "c = h" by (simp add: trim_def)
  with h show ?thesis by simp
qed

lemma lex_first_brace:
  assumes "lex (c # cs) = Some (TLBrace # ts)" and "\<not> is_json_ws c"
  shows "c = 0x7B"
proof (rule ccontr)
  assume n: "c \<noteq> 0x7B"
  have "\<exists>t ts'. t \<noteq> TLBrace \<and> lex (c # cs) = Some (t # ts') \<or> lex (c # cs) = None"
    using assms(2) n
    by (subst (1 2) lex.simps) (simp split: option.splits prod.splits, blast?)
  with assms(1) show False by auto
qed

lemma parse_elements_array:
  "parse_elements acc ts = Some (v, r) \<Longrightarrow> \<exists>xs. v = JArray xs"
proof (induction "length ts" arbitrary: acc ts rule: less_induct)
  case less
  note eq = parse_elements.simps[of acc ts]
  from less.prems obtain x r1 where pv: "parse_value ts = Some (x, r1)" and len: "length r1 < length ts"
    unfolding eq by (auto split: option.splits if_splits)
  show ?case
  proof (cases r1)
    case Nil
    with less.prems pv len show ?thesis unfolding eq by simp
  next
    case (Cons t r')
    show ?thesis
    proof (cases "t = TComma")
      case True
      with less.prems pv len Cons have "parse_elements (acc @ [x]) r' = Some (v, r)"
        unfolding eq by simp
      moreover have "length r' < length ts" using len Cons by simp
      ultimately show ?thesis using less.hyps by blast
    next
      case False
      with less.prems pv len Cons show ?thesis unfolding eq by (cases t) auto
    qed
  qed
qed

lemma parse_value_object_first:
  "parse_value ts = Some (JObject ms, r) \<Longrightarrow> \<exists>ts'. ts = TLBrace # ts'"
proof (cases ts)
  case Nil
  assume "parse_value ts = Some (JObject ms, r)"
  with Nil show ?thesis by simp
next
  case (Cons t ts')
  assume p: "parse_value ts = Some (JObject ms, r)"
  show ?thesis
  proof (cases "t = TLBracket")
    case True
    with p Cons have "ts' = TRBracket # r \<and> JObject ms = JArray [] \<or>
        parse_elements [] ts' = Some (JObject ms, r)"
      by (auto split: list.splits token.splits)
    with parse_elements_array[of "[]" ts' "JObject ms" r] show ?thesis by auto
  next
    case False
    with p Cons show ?thesis by (cases t) auto
  qed
qed

lemma parse_json_object_brace:
  assumes "parse_json s = Some (JObject ms)"
  shows "startsWith (trim s) (js ''{'')"
proof -
  from parse_json_trim[OF assms] obtain ts where
    l: "lex (trim s) = Some ts" and p: "parse_value ts = Some (JObject ms, [])"
    by (auto simp: parse_json_def split: option.splits list.splits)
  from parse_value_object_first[OF p] obtain ts' where ts: "ts = TLBrace # ts'" by blast
  from l ts obtain c cs where t: "trim s = c # cs" by (cases "trim s") auto
  from trim_head[OF t] have "\<not> is_js_whitespace c" .
  then have "\<not> is_json_ws c" using json_ws_is_js_ws by blast
  from lex_first_brace[OF _ this] l ts t have "c = 0x7B" by simp
  with t show ?thesis by (simp add: startsWith_def js_def)
qed


section \<open>Claims about the bridge\<close>

text \<open>
  Claim C1, amended. With exit code 0, when a line of the standard output is a JSON text
  for an object and no line before it has a trimmed text that starts with a brace, the
  invocation resolves with the object parsed from that line, whatever the position of
  the line and whatever the lines after it are.
\<close>

theorem json_object_line_resolves:
  assumes "python (js ''web_integration.py'' # scriptArgs) = ChildProcess (pre @ Close (Some 0) # post)"
    and "list_all is_data pre"
    and "split 0x0A (stdout_of pre) = ls1 @ l # ls2"
    and "list_all (\<lambda>p. \<not> starts_with_brace p) ls1"
    and "parse_json l = Some (JObject ms)"
  shows "promise (runPythonScript emsg python scriptArgs) = Resolved (JObject ms)"
proof -
  have b: "starts_with_brace l"
    unfolding starts_with_brace_def by (rule parse_json_object_brace[OF assms(5)])
  have "parse_json (trim l) = Some (JObject ms)" by (rule parse_json_trim[OF assms(5)])
  then show ?thesis
    using run_exit_zero_parsed[where python=python and scriptArgs=scriptArgs, OF assms(1,2)]
      parsed_text_first[OF assms(3,4) b]
    by (simp add: JSON_parse_def)
qed

theorem json_object_line_resolves_witness:
  \<open>promise (runPythonScript sample_message indented_worker [js ''generate_report'']) =
   Resolved (JObject [(js ''success'', JBool True)])\<close>
  using json_object_line_resolves[of indented_worker "[js ''generate_report'']"
      "[StdoutData (js ''Loading data...'' @ [0x0D, 0x0A] @ js ''  {\"success\": true}'' @ [0x0D, 0x0A]),
        StdoutData (js ''Done.'')]" "[]"
      "[js ''Loading data...'' @ [0x0D]]" "js ''  {\"success\": true}'' @ [0x0D]" "[js ''Done.'']"
      "[(js ''success'', JBool True)]" sample_message]
  by (simp add: indented_worker_def starts_with_brace_def string_eval json_eval)

text \<open>
  Claim C1 as stated fails: a line that is not JSON may still start with a brace, and
  then it is the line that is parsed. Here the worker prints a Python dictionary before
  its one JSON line; the invocation is rejected.
\<close>

theorem brace_noise_before_json_line:
  \<open>split 0x0A (stdout_of (events_of (noisy_worker [js ''web_integration.py'', js ''generate_report'']))) =
     [js ''{'step': 1}'', js ''{"success": true}''] \<and>
   parse_json (js ''{'step': 1}'') = None \<and>
   parse_json (js ''{"success": true}'') = Some (JObject [(js ''success'', JBool True)]) \<and>
   promise (runPythonScript sample_message noisy_worker [js ''generate_report'']) =
     Rejected (parse_failure (sample_message (js ''{'step': 1}'')))\<close>
  by (simp add: runPythonScript_def noisy_worker_def initial_def on_close_def JSON_parse_def
      resolve_def reject_def console_error_def parse_failure_def Let_def string_eval json_eval)

text \<open>
  Claim C2. When the worker process closes with an exit code other than 0 (or with none,
  after a signal), the promise is rejected with the message
  \<^verbatim>\<open>Python script failed with code <code>: <stderr>\<close>, which holds the exit code and the
  whole of the accumulated standard error. The outcome does not depend on the standard
  output, so it is the same when the output is valid JSON with \<^verbatim>\<open>success: true\<close>.
\<close>

theorem nonzero_exit_rejects:
  assumes "python (js ''web_integration.py'' # scriptArgs) = ChildProcess (pre @ Close code # post)"
    and "list_all is_data pre"
    and "code \<noteq> Some 0"
  shows "promise (runPythonScript emsg python scriptArgs) =
         Rejected (js ''Python script failed with code '' @ exit_code_to_string code @ js '': '' @
                   stderr_of pre)"
proof -
  let ?b = "\<lparr>dataString = stdout_of pre, errorString = stderr_of pre,
            promise = Pending, console = []\<rparr>"
  have z: "promise (dispatch emsg ?b (Close code)) =
     Rejected (js ''Python script failed with code '' @ exit_code_to_string code @ js '': '' @
                   stderr_of pre)"
    using on_close_nonzero[OF assms(3), of ?b emsg] by simp
  then have "promise (dispatch emsg ?b (Close code)) \<noteq> Pending" by simp
  from run_first_terminal[where python=python and scriptArgs=scriptArgs, OF assms(1,2) this] z
  show ?thesis by simp
qed

theorem nonzero_exit_rejects_witness:
  "promise (runPythonScript sample_message crashed_worker [js ''generate_report'']) =
   Rejected (js ''Python script failed with code 1: Traceback: boom'')"
  using nonzero_exit_rejects[of crashed_worker "[js ''generate_report'']"
      "[StdoutData (js ''{\"success\": true}''), StderrData (js ''Traceback: boom'')]"
      "Some 1" "[]" sample_message]
  by (simp add: crashed_worker_def exit_code_to_string_def int_to_string_def nat_to_string_def
      nat_digits.simps digit_char_def js_def)

text \<open>
  Claim C3, amended. An invocation whose worker closes or fails to start has exactly one
  outcome: the first \<^verbatim>\<open>close\<close> or \<^verbatim>\<open>error\<close> event settles the promise, as resolved
  or as rejected, and no later event changes it.
\<close>

theorem first_terminal_event_settles:
  assumes "python (js ''web_integration.py'' # scriptArgs) = ChildProcess (pre @ t # post)"
    and "list_all is_data pre"
    and "\<not> is_data t"
  shows "promise (runPythonScript emsg python scriptArgs) =
           promise (foldl (dispatch emsg) initial (pre @ [t])) \<and>
         promise (runPythonScript emsg python scriptArgs) \<noteq> Pending"
proof -
  let ?b = "\<lparr>dataString = stdout_of pre, errorString = stderr_of pre,
            promise = Pending, console = []\<rparr>"
  have settles: "promise (dispatch emsg ?b t) \<noteq> Pending"
    using assms(3)
    by (cases t)
       (auto simp: on_close_def on_error_def resolve_def reject_def console_error_def Let_def
             split: sum.splits)
  have "promise (runPythonScript emsg python scriptArgs) = promise (dispatch emsg ?b t)"
    by (rule run_first_terminal[where python=python and scriptArgs=scriptArgs,
          OF assms(1,2) settles])
  moreover have "foldl (dispatch emsg) initial (pre @ [t]) = dispatch emsg ?b t"
    using assms(2) by (simp add: foldl_data_initial)
  ultimately show ?thesis using settles by simp
qed

theorem first_terminal_event_settles_witness:
  "promise (runPythonScript sample_message missing_interpreter [js ''init_db'']) =
     promise (foldl (dispatch sample_message) initial [ProcessError (js ''spawn python ENOENT'')]) \<and>
   promise (runPythonScript sample_message missing_interpreter [js ''init_db'']) \<noteq> Pending"
proof -
  have h1: "missing_interpreter (js ''web_integration.py'' # [js ''init_db'']) =
      ChildProcess ([] @ ProcessError (js ''spawn python ENOENT'') # [Close (Some (- 2))])"
    by (simp add: missing_interpreter_def)
  have h2: "list_all is_data []" by simp
  have h3: "\<not> is_data (ProcessError (js ''spawn python ENOENT''))" by simp
  from first_terminal_event_settles[where python=missing_interpreter and emsg=sample_message,
      OF h1 h2 h3]
  show ?thesis by auto
qed

text \<open>
  Claim C3 as stated fails: no timeout is set, so the invocation of a worker that writes
  some output and never ends has no outcome; its promise stays pending.
\<close>

theorem hung_worker_never_settles:
  "promise (runPythonScript sample_message hung_worker [js ''generate_report'']) = Pending"
  by (simp add: runPythonScript_def hung_worker_def initial_def)

text \<open>
  Claim C4. With exit code 0, the first line of the standard output whose trimmed text
  starts with a brace is the one that is parsed: the invocation resolves with its value,
  or is rejected with its parse error, whatever the later lines are.
\<close>

theorem earliest_brace_line_wins:
  assumes "python (js ''web_integration.py'' # scriptArgs) = ChildProcess (pre @ Close (Some 0) # post)"
    and "list_all is_data pre"
    and "split 0x0A (stdout_of pre) = ls1 @ l # ls2"
    and "list_all (\<lambda>p. \<not> starts_with_brace p) ls1"
    and "starts_with_brace l"
  shows "promise (runPythonScript emsg python scriptArgs) =
         (case JSON_parse emsg (trim l) of
            Inr v \<Rightarrow> Resolved v
          | Inl m \<Rightarrow> Rejected (parse_failure m))"
  using run_exit_zero_parsed[where python=python and scriptArgs=scriptArgs, OF assms(1,2)]
    parsed_text_first[OF assms(3,4,5)]
  by simp

theorem earliest_brace_line_wins_witness:
  \<open>promise (runPythonScript sample_message two_results_worker [js ''generate_report'']) =
   Resolved (JObject [(js ''step'', JNumber (Number False [1] 1))])\<close>
  using earliest_brace_line_wins[of two_results_worker "[js ''generate_report'']"
      "[StdoutData (js ''Loading'' @ [0x0A] @ js ''{\"step\": 1}'' @ [0x0A]),
        StderrData (js ''warning''),
        StdoutData (js ''{\"success\": true}'' @ [0x0A])]" "[]"
      "[js ''Loading'']" "js ''{\"step\": 1}''" "[js ''{\"success\": true}'', []]" sample_message]
  by (simp add: two_results_worker_def starts_with_brace_def JSON_parse_def string_eval json_eval
      number_eval)

text \<open>
  Claim C5. With exit code 0 and no line whose trimmed text starts with a brace, the
  whole trimmed standard output is parsed as one JSON value, and the invocation resolves
  with that value when the parse succeeds.
\<close>

theorem whole_buffer_fallback:
  assumes "python (js ''web_integration.py'' # scriptArgs) = ChildProcess (pre @ Close (Some 0) # post)"
    and "list_all is_data pre"
    and "list_all (\<lambda>p. \<not> starts_with_brace p) (split 0x0A (stdout_of pre))"
  shows "promise (runPythonScript emsg python scriptArgs) =
         (case JSON_parse emsg (trim (stdout_of pre)) of
            Inr v \<Rightarrow> Resolved v
          | Inl m \<Rightarrow> Rejected (parse_failure m))"
  using run_exit_zero_parsed[where python=python and scriptArgs=scriptArgs, OF assms(1,2)]
    parsed_text_none[OF assms(3)]
  by simp

theorem whole_buffer_fallback_witness:
  "promise (runPythonScript sample_message array_worker [js ''generate_report'']) =
   Resolved (JArray [JBool True, JNull])"
  using whole_buffer_fallback[of array_worker "[js ''generate_report'']"
      "[StdoutData (js ''[true,'' @ [0x0A] @ js '' null]'' @ [0x0A])]" "[]" sample_message]
  by (simp add: array_worker_def starts_with_brace_def JSON_parse_def string_eval json_eval)

text \<open>
  Claim C6, amended. With exit code 0, when the text handed to \<^verbatim>\<open>JSON.parse\<close> (the
  first brace line, or the trimmed output when there is none) does not parse, the
  invocation is rejected with \<^verbatim>\<open>Failed to parse Python output: <parse error message>\<close>;
  the raw standard output is written to the error console and is not part of the
  rejection. The empty output is such a case.
\<close>

theorem unparsable_output_rejects:
  assumes "python (js ''web_integration.py'' # scriptArgs) = ChildProcess (pre @ Close (Some 0) # post)"
    and "list_all is_data pre"
    and "parse_json (parsed_text (stdout_of pre)) = None"
  shows "promise (runPythonScript emsg python scriptArgs) =
           Rejected (parse_failure (emsg (parsed_text (stdout_of pre)))) \<and>
         LogRawOutput (stdout_of pre) \<in> set (console (runPythonScript emsg python scriptArgs))"
proof -
  let ?b = "\<lparr>dataString = stdout_of pre, errorString = stderr_of pre,
            promise = Pending, console = []\<rparr>"
  have p: "promise (runPythonScript emsg python scriptArgs) =
           Rejected (parse_failure (emsg (parsed_text (stdout_of pre))))"
    using run_exit_zero_parsed[where python=python and scriptArgs=scriptArgs, OF assms(1,2)]
      assms(3)
    by (simp add: JSON_parse_def)
  have "JSON_parse emsg (parsed_text (dataString ?b)) = Inl (emsg (parsed_text (stdout_of pre)))"
    using assms(3) by (simp add: JSON_parse_def)
  then have "LogRawOutput (stdout_of pre) \<in> set (console (on_close emsg (Some 0) ?b))"
    using on_close_zero_console[of emsg ?b] by simp
  moreover have "runPythonScript emsg python scriptArgs =
      foldl (dispatch emsg) (on_close emsg (Some 0) ?b) post"
    using assms(1,2) by (simp add: runPythonScript_def foldl_data_initial)
  ultimately have "LogRawOutput (stdout_of pre) \<in> set (console (runPythonScript emsg python scriptArgs))"
    using console_foldl[of "on_close emsg (Some 0) ?b" emsg post] by auto
  with p show ?thesis by simp
qed

theorem unparsable_output_rejects_witness:
  "promise (runPythonScript sample_message silent_worker [js ''send_emails'']) =
     Rejected (parse_failure (sample_message [])) \<and>
   LogRawOutput [] \<in> set (console (runPythonScript sample_message silent_worker [js ''send_emails'']))"
  using unparsable_output_rejects[of silent_worker "[js ''send_emails'']" "[]" "[]" sample_message]
  by (simp add: silent_worker_def parsed_text_def string_eval json_eval)

text \<open>
  Claim C6 as stated fails: the rejection does not carry the raw standard output. Two
  runs whose outputs differ after the same first brace line are rejected with the same
  error.
\<close>

theorem rejection_omits_raw_stdout:
  "promise (runPythonScript sample_message garbage_worker_a [js ''generate_report'']) =
     Rejected (parse_failure (sample_message (js ''{x''))) \<and>
   promise (runPythonScript sample_message garbage_worker_b [js ''generate_report'']) =
     Rejected (parse_failure (sample_message (js ''{x''))) \<and>
   stdout_of (events_of (garbage_worker_a (js ''web_integration.py'' # [js ''generate_report'']))) \<noteq>
   stdout_of (events_of (garbage_worker_b (js ''web_integration.py'' # [js ''generate_report''])))"
  by (simp add: runPythonScript_def garbage_worker_a_def garbage_worker_b_def initial_def
      on_close_def JSON_parse_def resolve_def reject_def console_error_def parse_failure_def
      Let_def string_eval json_eval)

text \<open>
  Claim C7, amended. When the interpreter process cannot be started, the promise is
  rejected with an error made of the system error text alone, without an exit code and
  without standard output or standard error. Reported by the \<^verbatim>\<open>error\<close> event, the
  message is \<^verbatim>\<open>Failed to start Python process: <system error>\<close>, and it is never the
  message of a non-zero exit, also when a \<^verbatim>\<open>close\<close> event with a non-zero code
  follows. Thrown by \<^verbatim>\<open>spawn\<close>, the system error itself is the rejection, and nothing
  is logged.
\<close>

theorem spawn_failure_rejects:
  "(python (js ''web_integration.py'' # scriptArgs) = ChildProcess (ProcessError m # post) \<longrightarrow>
      promise (runPythonScript emsg python scriptArgs) =
        Rejected (js ''Failed to start Python process: '' @ m) \<and>
      (\<forall>code err. promise (runPythonScript emsg python scriptArgs) \<noteq>
        Rejected (js ''Python script failed with code '' @ exit_code_to_string code @
                  js '': '' @ err))) \<and>
   (python (js ''web_integration.py'' # scriptArgs) = SpawnThrows m \<longrightarrow>
      runPythonScript emsg python scriptArgs =
        \<lparr>dataString = [], errorString = [], promise = Rejected m, console = []\<rparr>)"
proof (intro conjI impI)
  assume child: "python (js ''web_integration.py'' # scriptArgs) = ChildProcess (ProcessError m # post)"
  have "promise (dispatch emsg initial (ProcessError m)) =
        Rejected (js ''Failed to start Python process: '' @ m)"
    by (simp add: on_error_def reject_def console_error_def initial_def)
  then show r: "promise (runPythonScript emsg python scriptArgs) =
        Rejected (js ''Failed to start Python process: '' @ m)"
    using child by (simp add: runPythonScript_def foldl_settled)
  show "\<forall>code err. promise (runPythonScript emsg python scriptArgs) \<noteq>
        Rejected (js ''Python script failed with code '' @ exit_code_to_string code @
                  js '': '' @ err)"
    unfolding r by (simp add: js_def)
next
  assume "python (js ''web_integration.py'' # scriptArgs) = SpawnThrows m"
  then show "runPythonScript emsg python scriptArgs =
        \<lparr>dataString = [], errorString = [], promise = Rejected m, console = []\<rparr>"
    by (simp add: runPythonScript_def initial_def)
qed

theorem spawn_failure_rejects_witness:
  "promise (runPythonScript sample_message missing_interpreter [js ''init_db'']) =
     Rejected (js ''Failed to start Python process: spawn python ENOENT'') \<and>
   promise (runPythonScript sample_message missing_interpreter [js ''init_db'']) \<noteq>
     Rejected (js ''Python script failed with code '' @ exit_code_to_string (Some (- 2)) @
               js '': '' @ []) \<and>
   runPythonScript sample_message refused_spawn [js ''init_db''] =
     \<lparr>dataString = [], errorString = [], promise = Rejected (js ''spawn ENOMEM''), console = []\<rparr>"
proof -
  have child: "missing_interpreter (js ''web_integration.py'' # [js ''init_db'']) =
      ChildProcess (ProcessError (js ''spawn python ENOENT'') # [Close (Some (- 2))])"
    by (simp add: missing_interpreter_def)
  have thrown: "refused_spawn (js ''web_integration.py'' # [js ''init_db'']) =
      SpawnThrows (js ''spawn ENOMEM'')"
    by (simp add: refused_spawn_def)
  from spawn_failure_rejects[of missing_interpreter "[js ''init_db'']"
      "js ''spawn python ENOENT''" "[Close (Some (- 2))]" sample_message] child
  have a: "promise (runPythonScript sample_message missing_interpreter [js ''init_db'']) =
        Rejected (js ''Failed to start Python process: '' @ js ''spawn python ENOENT'')"
    and b: "promise (runPythonScript sample_message missing_interpreter [js ''init_db'']) \<noteq>
        Rejected (js ''Python script failed with code '' @ exit_code_to_string (Some (- 2)) @
                  js '': '' @ [])"
    by blast+
  from spawn_failure_rejects[of refused_spawn "[js ''init_db'']" "js ''spawn ENOMEM''" _
      sample_message] thrown
  have c: "runPythonScript sample_message refused_spawn [js ''init_db''] =
     \<lparr>dataString = [], errorString = [], promise = Rejected (js ''spawn ENOMEM''), console = []\<rparr>"
    by blast
  from a have "promise (runPythonScript sample_message missing_interpreter [js ''init_db'']) =
     Rejected (js ''Failed to start Python process: spawn python ENOENT'')"
    by (simp add: js_def)
  with b c show ?thesis by blast
qed

text \<open>
  Claim C7 as stated fails: the worker script is an argument of the interpreter, so a
  script that is missing or cannot be read does not stop the process from starting. The
  interpreter reports on its standard error and exits with code 2, and the rejection is
  that of a non-zero exit, with the exit code and the standard error.
\<close>

theorem missing_script_is_nonzero_exit:
  \<open>promise (runPythonScript sample_message missing_script [js ''init_db'']) =
   Rejected
     (js ''Python script failed with code 2: python: can't open file 'web_integration.py': [Errno 2] No such file or directory'' @
      [0x0A])\<close>
  by (simp add: runPythonScript_def missing_script_def initial_def on_close_def reject_def
      console_error_def exit_code_to_string_def int_to_string_def nat_to_string_def
      nat_digits.simps digit_char_def js_def)

text \<open>
  Claim C10. With exit code 0, when the first line whose trimmed text starts with a brace
  is not by itself a JSON text, the invocation is rejected with the parse error of that
  line. The whole output is not parsed, also when it is a valid JSON text as a whole, as
  for an object printed over several lines.
\<close>

theorem unparsable_brace_line_rejects:
  assumes "python (js ''web_integration.py'' # scriptArgs) = ChildProcess (pre @ Close (Some 0) # post)"
    and "list_all is_data pre"
    and "split 0x0A (stdout_of pre) = ls1 @ l # ls2"
    and "list_all (\<lambda>p. \<not> starts_with_brace p) ls1"
    and "starts_with_brace l"
    and "parse_json (trim l) = None"
  shows "promise (runPythonScript emsg python scriptArgs) =
         Rejected (parse_failure (emsg (trim l)))"
  using run_exit_zero_parsed[where python=python and scriptArgs=scriptArgs, OF assms(1,2)]
    parsed_text_first[OF assms(3,4,5)] assms(6)
  by (simp add: JSON_parse_def)

theorem unparsable_brace_line_rejects_witness:
  \<open>parse_json (trim (stdout_of (events_of (pretty_worker [])))) =
     Some (JObject [(js ''success'', JBool True)]) \<and>
   promise (runPythonScript sample_message pretty_worker [js ''generate_report'']) =
     Rejected (parse_failure (sample_message (js ''{'')))\<close>
  using unparsable_brace_line_rejects[of pretty_worker "[js ''generate_report'']"
      "[StdoutData (js ''{'' @ [0x0A] @ js ''  \"success\": true'' @ [0x0A] @ js ''}'' @ [0x0A])]"
      "[]" "[]" "js ''{''" "[js ''  \"success\": true'', js ''}'', []]" sample_message]
  by (simp add: pretty_worker_def starts_with_brace_def string_eval json_eval)


section \<open>Claims about the chat handler\<close>

lemmas value_eval =
  member_def ToString_def ToNumber_def percent_def binary64_to_string_def fixed_digits_def
  nat_to_string_def digit_char_def lower_message_def

lemma report_output_parsed:
  "JSON_parse emsg (parsed_text report_output) = Inr report"
  by (simp add: report_output_def report_def parsed_text_def JSON_parse_def string_eval json_eval
      number_eval)

lemma report_resolves:
  assumes "python (js ''web_integration.py'' # [js ''generate_report'']) =
      ChildProcess (pre @ Close (Some 0) # post)"
    and "list_all is_data pre"
    and "stdout_of pre = report_output"
  shows "promise (runPythonScript emsg python [js ''generate_report'']) = Resolved report"
  using run_exit_zero_parsed[where python=python and scriptArgs="[js ''generate_report'']"
      and emsg=emsg, OF assms(1,2)]
  by (simp add: assms(3) report_output_parsed)

lemma startsWith_iff: "startsWith s p \<longleftrightarrow> (\<exists>b. s = p @ b)"
  unfolding startsWith_def
  by (metis append_eq_conv_conj append_take_drop_id)

lemma str_includes_iff: "str_includes s sub \<longleftrightarrow> (\<exists>a b. s = a @ sub @ b)"
proof (induction s)
  case Nil
  then show ?case by auto
next
  case (Cons c cs)
  show ?case
  proof
    assume "str_includes (c # cs) sub"
    then consider "startsWith (c # cs) sub" | "str_includes cs sub" by auto
    then show "\<exists>a b. c # cs = a @ sub @ b"
    proof cases
      case 1
      then obtain b where "c # cs = [] @ sub @ b" by (auto simp: startsWith_iff)
      then show ?thesis by blast
    next
      case 2
      with Cons.IH obtain a b where "cs = a @ sub @ b" by blast
      then have "c # cs = (c # a) @ sub @ b" by simp
      then show ?thesis by blast
    qed
  next
    assume "\<exists>a b. c # cs = a @ sub @ b"
    then obtain a b where ab: "c # cs = a @ sub @ b" by blast
    show "str_includes (c # cs) sub"
    proof (cases a)
      case Nil
      with ab have "startsWith (c # cs) sub" by (auto simp: startsWith_iff)
      then show ?thesis by simp
    next
      case (Cons a0 a')
      with ab have "cs = a' @ sub @ b" by simp
      with Cons.IH have "str_includes cs sub" by blast
      then show ?thesis by simp
    qed
  qed
qed

lemma toLowerCase_append: "toLowerCase (a @ b) = toLowerCase a @ toLowerCase b"
  by (simp add: toLowerCase_def)

lemma str_includes_toLowerCase:
  assumes "str_includes s sub" and "toLowerCase sub = sub"
  shows "str_includes (toLowerCase s) sub"
proof -
  from assms(1) obtain a b where "s = a @ sub @ b" by (auto simp: str_includes_iff)
  then have "toLowerCase s = toLowerCase a @ sub @ toLowerCase b"
    using assms(2) by (simp add: toLowerCase_append)
  then show ?thesis unfolding str_includes_iff by blast
qed

lemma status_lower: "toLowerCase (js ''status'') = js ''status''"
  by (simp add: toLowerCase_def lower_unit_def js_def)

lemma replicate_numeral: "replicate (numeral k) x = x # replicate (pred_numeral k) x"
  by (simp add: numeral_eq_Suc)

lemma report_status_text:
  "js ''Current recruitment status: '' @
   ToString (Some (JNumber (Number False [4, 5] 2))) @ js '' out of '' @
   ToString (Some (JNumber (Number False [1] 3))) @ js '' participants completed ('' @
   percent (Some (JNumber (Number False [4, 5] 0))) @ js ''% complete).'' =
   js ''Current recruitment status: 45 out of 100 participants completed (45.0% complete).''"
  by (simp add: value_eval number_eval js_def replicate_numeral)

text \<open>
  Claim C9. The worker prints the line \<^verbatim>\<open>Loading data...\<close>, the report as one line of
  JSON and the line \<^verbatim>\<open>Done.\<close>, in any chunks, and exits with code 0. The invocation
  resolves with the report, whose \<^verbatim>\<open>project_data.completion_percentage\<close> is 0.45, and
  a chat request whose message contains \<^verbatim>\<open>status\<close> is answered with success and the
  text \<^verbatim>\<open>Current recruitment status: 45 out of 100 participants completed (45.0% complete).\<close>,
  which holds \<^verbatim>\<open>45 out of 100\<close> and \<^verbatim>\<open>45.0%\<close>.
\<close>

theorem report_scenario:
  assumes "python (js ''web_integration.py'' # [js ''generate_report'']) =
      ChildProcess (pre @ Close (Some 0) # post)"
    and "list_all is_data pre"
    and "stdout_of pre = report_output"
    and "get_prop body (js ''message'') = Some (JString m)"
    and "str_includes m (js ''status'')"
  shows "promise (runPythonScript emsg python [js ''generate_report'']) = Resolved report \<and>
    member (get_prop report (js ''project_data'')) (js ''completion_percentage'') =
      Inr (Some (JNumber (Number False [4, 5] 0))) \<and>
    chat emsg python body =
      Some \<lparr>success = True,
            response = Some (JString
              (js ''Current recruitment status: 45 out of 100 participants completed (45.0% complete).'')),
            data = get_prop report (js ''project_data'')\<rparr> \<and>
    str_includes
      (js ''Current recruitment status: 45 out of 100 participants completed (45.0% complete).'')
      (js ''45 out of 100'') \<and>
    str_includes
      (js ''Current recruitment status: 45 out of 100 participants completed (45.0% complete).'')
      (js ''45.0%'')"
proof -
  have resolved: "promise (runPythonScript emsg python [js ''generate_report'']) = Resolved report"
    by (rule report_resolves[where python=python, OF assms(1,2,3)])
  have lower: "str_includes (toLowerCase m) (js ''status'')"
    by (rule str_includes_toLowerCase[OF assms(5) status_lower])
  have pd: "get_prop report (js ''project_data'') =
      Some (JObject
           [(js ''overall_completes'', JNumber (Number False [4, 5] 2)),
            (js ''total_quota'', JNumber (Number False [1] 3)),
            (js ''completion_percentage'', JNumber (Number False [4, 5] 0))])"
    by (simp add: report_def js_def)
  have cp: "member (get_prop report (js ''project_data'')) (js ''completion_percentage'') =
      Inr (Some (JNumber (Number False [4, 5] 0)))"
    unfolding pd by (simp add: member_def js_def)
  have oc: "member (get_prop report (js ''project_data'')) (js ''overall_completes'') =
      Inr (Some (JNumber (Number False [4, 5] 2)))"
    unfolding pd by (simp add: member_def js_def)
  have tq: "member (get_prop report (js ''project_data'')) (js ''total_quota'') =
      Inr (Some (JNumber (Number False [1] 3)))"
    unfolding pd by (simp add: member_def js_def)
  have ok: "member (Some report) (js ''success'') = Inr (Some (JBool True))"
    by (simp add: member_def report_def js_def)
  have body: "chat_body (Some (JString m)) report =
      Inr \<lparr>success = True,
            response = Some (JString
              (js ''Current recruitment status: 45 out of 100 participants completed (45.0% complete).'')),
            data = get_prop report (js ''project_data'')\<rparr>"
    unfolding chat_body_def
    using report_status_text by (simp add: ok oc tq cp lower lower_message_def Let_def)
  have c: "chat emsg python body =
      Some \<lparr>success = True,
            response = Some (JString
              (js ''Current recruitment status: 45 out of 100 participants completed (45.0% complete).'')),
            data = get_prop report (js ''project_data'')\<rparr>"
    unfolding chat_def by (simp add: assms(4) resolved body)
  have i1: "str_includes
      (js ''Current recruitment status: 45 out of 100 participants completed (45.0% complete).'')
      (js ''45 out of 100'')"
    unfolding str_includes_iff
    by (rule exI[of _ "js ''Current recruitment status: ''"],
        rule exI[of _ "js '' participants completed (45.0% complete).''"]) (simp add: js_def)
  have i2: "str_includes
      (js ''Current recruitment status: 45 out of 100 participants completed (45.0% complete).'')
      (js ''45.0%'')"
    unfolding str_includes_iff
    by (rule exI[of _ "js ''Current recruitment status: 45 out of 100 participants completed (''"],
        rule exI[of _ "js '' complete).''"]) (simp add: js_def)
  from resolved cp c i1 i2 show ?thesis by blast
qed

theorem report_scenario_witness:
  "promise (runPythonScript sample_message report_worker [js ''generate_report'']) =
     Resolved report \<and>
   member (get_prop report (js ''project_data'')) (js ''completion_percentage'') =
     Inr (Some (JNumber (Number False [4, 5] 0))) \<and>
   chat sample_message report_worker status_request =
     Some \<lparr>success = True,
           response = Some (JString
             (js ''Current recruitment status: 45 out of 100 participants completed (45.0% complete).'')),
           data = get_prop report (js ''project_data'')\<rparr>"
proof -
  have w: \<open>report_worker (js ''web_integration.py'' # [js ''generate_report'']) =
      ChildProcess
        ([StdoutData (js ''Loading data...'' @ [0x0A] @ js ''{"success": true, "project_data": ''),
          StderrData (js ''cache miss''),
          StdoutData
            (js ''{"overall_completes": 45, "total_quota": 100, "completion_percentage": 0.45}, "analysis": "On track."}'' @
             [0x0A] @ js ''Done.'')] @
         Close (Some 0) # [])\<close>
    by (simp add: report_worker_def)
  have d: \<open>list_all is_data
        [StdoutData (js ''Loading data...'' @ [0x0A] @ js ''{"success": true, "project_data": ''),
          StderrData (js ''cache miss''),
          StdoutData
            (js ''{"overall_completes": 45, "total_quota": 100, "completion_percentage": 0.45}, "analysis": "On track."}'' @
             [0x0A] @ js ''Done.'')]\<close>
    by simp
  have out: \<open>stdout_of
        [StdoutData (js ''Loading data...'' @ [0x0A] @ js ''{"success": true, "project_data": ''),
          StderrData (js ''cache miss''),
          StdoutData
            (js ''{"overall_completes": 45, "total_quota": 100, "completion_percentage": 0.45}, "analysis": "On track."}'' @
             [0x0A] @ js ''Done.'')] = report_output\<close>
    by (simp add: report_output_def js_def)
  have m: "get_prop status_request (js ''message'') = Some (JString (js ''What is the status today?''))"
    by (simp add: status_request_def)
  have s: "str_includes (js ''What is the status today?'') (js ''status'')"
    by (simp add: js_def startsWith_def)
  from report_scenario[where python=report_worker and emsg=sample_message, OF w d out m s]
  show ?thesis by blast
qed


section \<open>The text of a value parses back to the value\<close>
















































section \<open>Claims about the settings handlers\<close>

















end
